theory Spec2Isabelle
  imports Complex_Main
begin

section \<open>Values of the exporter\<close>

text \<open>
  \<^verbatim>\<open>fetchTraewellingData.js\<close> works on what \<^verbatim>\<open>JSON.parse\<close> returns. A parsed
  value is \<^verbatim>\<open>null\<close>, a boolean, a number, a string, an array or an object; an object
  is kept as its list of properties, the first entry for a key being the property.
  A number is kept by its value, so that \<^verbatim>\<open>0\<close> and \<^verbatim>\<open>-0\<close> are the same number.
  A JavaScript value is a parsed value or \<^verbatim>\<open>undefined\<close> (\<open>None\<close>), which is
  what reading a property that is not there gives.
\<close>

datatype json =
    JNull
  | JBool bool
  | JNum rat
  | JStr string
  | JArr "json list"
  | JObj "(string \<times> json) list"

type_synonym jsval = "json option"

text \<open>What the script can throw, or receive as a rejected promise.\<close>

datatype error =
    TypeError
  | RangeError
  | SyntaxError
  | HttpError nat
  | TransportError
  | FsError

text \<open>
  \<^verbatim>\<open>v.k\<close> in two steps. The base \<^verbatim>\<open>v\<close> must be neither \<^verbatim>\<open>undefined\<close> nor
  \<^verbatim>\<open>null\<close>, or a TypeError is thrown (\<open>deref\<close>). On any other base the read gives the
  property of an object and \<^verbatim>\<open>undefined\<close> otherwise (\<open>member\<close>): none of the keys
  the script reads is a property of the prototypes of strings, numbers, booleans or
  arrays.
\<close>

definition nullish :: "jsval \<Rightarrow> bool" where
  "nullish v = (v = None \<or> v = Some JNull)"

definition deref :: "jsval \<Rightarrow> error + json" where
  "deref v = (if nullish v then Inl TypeError else Inr (the v))"

fun member :: "json \<Rightarrow> string \<Rightarrow> jsval" where
  "member (JObj kvs) k = map_of kvs k"
| "member _ k = None"

text \<open>Truthiness, and \<^verbatim>\<open>v || d\<close> for a default \<^verbatim>\<open>d\<close>.\<close>

fun truthy :: "json \<Rightarrow> bool" where
  "truthy JNull = False"
| "truthy (JBool b) = b"
| "truthy (JNum r) = (r \<noteq> 0)"
| "truthy (JStr s) = (s \<noteq> [])"
| "truthy (JArr xs) = True"
| "truthy (JObj kvs) = True"

definition truthy_val :: "jsval \<Rightarrow> bool" where
  "truthy_val v = (case v of None \<Rightarrow> False | Some j \<Rightarrow> truthy j)"

definition or_default :: "jsval \<Rightarrow> json \<Rightarrow> json" where
  "or_default v d = (if truthy_val v then the v else d)"

fun isArray :: "jsval \<Rightarrow> bool" where
  "isArray (Some (JArr xs)) = True"
| "isArray _ = False"

text \<open>
  An object literal, as \<^verbatim>\<open>JSON.stringify\<close> writes it: a property whose value is
  \<^verbatim>\<open>undefined\<close> is left out of the output, every other property is written in the
  order of the literal.
\<close>

fun properties :: "(string \<times> jsval) list \<Rightarrow> (string \<times> json) list" where
  "properties [] = []"
| "properties ((k, None) # kvs) = properties kvs"
| "properties ((k, Some j) # kvs) = (k, j) # properties kvs"

definition object :: "(string \<times> jsval) list \<Rightarrow> json" where
  "object kvs = JObj (properties kvs)"

text \<open>Reading along a path of keys in a written document.\<close>

fun at_path :: "json \<Rightarrow> string list \<Rightarrow> jsval" where
  "at_path j [] = Some j"
| "at_path j (k # ks) = (case member j k of None \<Rightarrow> None | Some j' \<Rightarrow> at_path j' ks)"

text \<open>
  Conversion to a string, as a template literal and the \<^verbatim>\<open>Date\<close> constructor ask
  for it. It throws a TypeError on a parsed object with a property \<^verbatim>\<open>toString\<close> of
  its own: the property hides \<^verbatim>\<open>Object.prototype.toString\<close> and, being parsed JSON,
  is not callable, and \<^verbatim>\<open>valueOf\<close> gives no primitive either. An array is joined
  from the strings of its elements, \<^verbatim>\<open>null\<close> being the empty string, so it converts
  when its elements do. \<^verbatim>\<open>undefined\<close> and every other value convert.
\<close>

fun stringifiable :: "json \<Rightarrow> bool" where
  "stringifiable (JObj kvs) = (map_of kvs ''toString'' = None)"
| "stringifiable (JArr xs) = (\<forall>x\<in>set xs. stringifiable x)"
| "stringifiable _ = True"

definition interpolates :: "jsval \<Rightarrow> bool" where
  "interpolates v = (case v of None \<Rightarrow> True | Some j \<Rightarrow> stringifiable j)"

section \<open>Dates\<close>

text \<open>
  A \<^verbatim>\<open>Date\<close> holds a time value, a whole number of milliseconds of magnitude at most
  8.64e15, or is invalid (\<open>None\<close>). \<^verbatim>\<open>new Date(v)\<close> converts \<^verbatim>\<open>undefined\<close>,
  \<^verbatim>\<open>null\<close>, booleans and numbers as ECMAScript's ToNumber does and clips the result;
  a string, and through its string form an array or an object, goes through the
  engine's date parser, and an array or object that does not convert to a string
  throws a TypeError. The date parser is a parameter of the model, and so is the
  engine's limit on the number of arguments one call can take, which a spread
  \<^verbatim>\<open>f(...xs)\<close> of a longer list exceeds with a RangeError.
\<close>

type_synonym date = "int option"

record runtime =
  Date_parse :: "json \<Rightarrow> int option"
  argument_limit :: int

definition TimeClip :: "rat \<Rightarrow> date" where
  "TimeClip r = (if \<bar>r\<bar> > 8640000000000000 then None
                 else Some (if 0 \<le> r then \<lfloor>r\<rfloor> else \<lceil>r\<rceil>))"

fun new_Date :: "runtime \<Rightarrow> jsval \<Rightarrow> error + date" where
  "new_Date rt None = Inr None"
| "new_Date rt (Some JNull) = Inr (TimeClip 0)"
| "new_Date rt (Some (JBool b)) = Inr (TimeClip (if b then 1 else 0))"
| "new_Date rt (Some (JNum r)) = Inr (TimeClip r)"
| "new_Date rt (Some j) =
     (if stringifiable j
      then Inr (case Date_parse rt j of None \<Rightarrow> None | Some t \<Rightarrow> TimeClip (of_int t))
      else Inl TypeError)"

text \<open>
  \<^verbatim>\<open>Math.min\<close> and \<^verbatim>\<open>Math.max\<close> work on numbers; a \<^verbatim>\<open>Date\<close> among their
  arguments is read as its time value, NaN when it is invalid. The script calls them
  as \<^verbatim>\<open>Math.min(...dates)\<close> and \<^verbatim>\<open>Math.max(...dates)\<close>, the whole list spread
  into one call: beyond the engine's argument limit the call throws a RangeError, and
  within it the result is NaN when an argument is NaN and the least (the greatest)
  argument otherwise.
\<close>

datatype jsnum = NaN | NegInf | Fin int | PosInf

fun num_less :: "jsnum \<Rightarrow> jsnum \<Rightarrow> bool" where
  "num_less NaN y = False"
| "num_less x NaN = False"
| "num_less PosInf y = False"
| "num_less x NegInf = False"
| "num_less NegInf y = True"
| "num_less x PosInf = True"
| "num_less (Fin a) (Fin b) = (a < b)"

definition valueOf :: "date \<Rightarrow> jsnum" where
  "valueOf d = (case d of None \<Rightarrow> NaN | Some t \<Rightarrow> Fin t)"

fun min_from :: "jsnum \<Rightarrow> jsnum list \<Rightarrow> jsnum" where
  "min_from lowest [] = lowest"
| "min_from lowest (x # xs) =
     (if x = NaN then NaN else min_from (if num_less x lowest then x else lowest) xs)"

fun max_from :: "jsnum \<Rightarrow> jsnum list \<Rightarrow> jsnum" where
  "max_from highest [] = highest"
| "max_from highest (x # xs) =
     (if x = NaN then NaN else max_from (if num_less highest x then x else highest) xs)"

definition Math_min :: "runtime \<Rightarrow> jsnum list \<Rightarrow> error + jsnum" where
  "Math_min rt xs =
     (if int (length xs) > argument_limit rt then Inl RangeError else Inr (min_from PosInf xs))"

definition Math_max :: "runtime \<Rightarrow> jsnum list \<Rightarrow> error + jsnum" where
  "Math_max rt xs =
     (if int (length xs) > argument_limit rt then Inl RangeError else Inr (max_from NegInf xs))"

definition Date_of_number :: "jsnum \<Rightarrow> date" where
  "Date_of_number n = (case n of Fin t \<Rightarrow> TimeClip (of_int t) | _ \<Rightarrow> None)"

text \<open>
  \<^verbatim>\<open>toISOString\<close>: a RangeError on an invalid date, and otherwise the UTC calendar
  date and time of the time value, the year with four digits from 0 to 9999 and with a
  sign and six digits outside.
\<close>

definition digit :: "int \<Rightarrow> char" where
  "digit d = ''0123456789'' ! nat (d mod 10)"

definition pad2 :: "int \<Rightarrow> string" where
  "pad2 n = [digit (n div 10), digit n]"

definition pad3 :: "int \<Rightarrow> string" where
  "pad3 n = [digit (n div 100), digit (n div 10), digit n]"

definition pad4 :: "int \<Rightarrow> string" where
  "pad4 n = [digit (n div 1000), digit (n div 100), digit (n div 10), digit n]"

definition pad6 :: "int \<Rightarrow> string" where
  "pad6 n = [digit (n div 100000), digit (n div 10000), digit (n div 1000),
             digit (n div 100), digit (n div 10), digit n]"

definition year_string :: "int \<Rightarrow> string" where
  "year_string y =
     (if 0 \<le> y \<and> y \<le> 9999 then pad4 y
      else (if y < 0 then ''-'' else ''+'') @ pad6 \<bar>y\<bar>)"

definition civil :: "int \<Rightarrow> int \<times> int \<times> int" where
  "civil days =
     (let z = days + 719468;
          era = z div 146097;
          doe = z - era * 146097;
          yoe = (doe - doe div 1460 + doe div 36524 - doe div 146096) div 365;
          doy = doe - (365 * yoe + yoe div 4 - yoe div 100);
          mp = (5 * doy + 2) div 153;
          d = doy - (153 * mp + 2) div 5 + 1;
          m = (if mp < 10 then mp + 3 else mp - 9);
          y = yoe + era * 400 + (if m \<le> 2 then 1 else 0)
      in (y, m, d))"

definition iso_string :: "int \<Rightarrow> string" where
  "iso_string t =
     (let ms = t mod 86400000;
          (y, m, d) = civil (t div 86400000)
      in year_string y @ ''-'' @ pad2 m @ ''-'' @ pad2 d @ ''T''
         @ pad2 (ms div 3600000) @ '':'' @ pad2 (ms div 60000 mod 60) @ '':''
         @ pad2 (ms div 1000 mod 60) @ ''.'' @ pad3 (ms mod 1000) @ ''Z'')"

definition toISOString :: "date \<Rightarrow> error + string" where
  "toISOString d = (case d of None \<Rightarrow> Inl RangeError | Some t \<Rightarrow> Inr (iso_string t))"

section \<open>The HTTP JSON fetcher\<close>

text \<open>
  What the server does with one GET: the request fails in transport, or a response
  arrives with a status code and a body, the body being well-formed JSON
  (\<open>Some\<close> of its parsed value) or not. \<^verbatim>\<open>fetchJSON\<close> rejects on a transport
  error; on a status other than 200 it rejects at once, and the later
  \<^verbatim>\<open>resolve\<close> or \<^verbatim>\<open>reject\<close> of the \<^verbatim>\<open>end\<close> handler has no effect on the settled
  promise; on status 200 it resolves with the parsed body or rejects with the
  SyntaxError of \<^verbatim>\<open>JSON.parse\<close>. A response can also be cut short after its
  headers: the status code has arrived and the body never ends. The script listens for
  \<^verbatim>\<open>error\<close> on the request only and sets no timeout, so that on status 200 the
  promise is then never settled (\<open>None\<close>); on any other status it was rejected when
  the headers arrived.
\<close>

datatype http_outcome =
    NetworkFailure
  | Response nat "json option"
  | Truncated nat

fun fetchJSON :: "http_outcome \<Rightarrow> (error + json) option" where
  "fetchJSON NetworkFailure = Some (Inl TransportError)"
| "fetchJSON (Response code body) =
     (if code \<noteq> 200 then Some (Inl (HttpError code))
      else case body of None \<Rightarrow> Some (Inl SyntaxError) | Some j \<Rightarrow> Some (Inr j))"
| "fetchJSON (Truncated code) =
     (if code \<noteq> 200 then Some (Inl (HttpError code)) else None)"

text \<open>
  The two endpoints the script calls. The username is interpolated into the URL of the
  statuses endpoint; the model keeps the interpolated value and the page parameter.
\<close>

datatype request =
    AuthUser
  | UserStatuses jsval nat

text \<open>
  The world of one run: the answer to the profile request, the answer to the request
  for each page of statuses, the reading of the system clock when the document is
  built, and whether \<^verbatim>\<open>fs.writeFileSync\<close> throws.
\<close>

record world =
  user_response :: http_outcome
  page_response :: "nat \<Rightarrow> http_outcome"
  clock :: int
  write_error :: "error option"

section \<open>The pagination loop\<close>

text \<open>
  One pass through the body of the \<^verbatim>\<open>while\<close> loop (lines 98 to 131), from the
  accumulated statuses: whether the loop goes on, and the statuses accumulated after
  the pass. A rejected fetch, or a TypeError on reading \<^verbatim>\<open>data\<close> of a \<^verbatim>\<open>null\<close>
  response, lands in the \<^verbatim>\<open>catch\<close> of line 128, which breaks; a \<^verbatim>\<open>data\<close> that is
  falsy or not an array breaks at line 110. Otherwise the page is appended and the
  loop goes on when the page was not empty. A fetch that is never settled leaves the
  pass waiting at line 101, and the pass has no result (\<open>None\<close>).
\<close>

definition page_pass :: "world \<Rightarrow> nat \<Rightarrow> json list \<Rightarrow> (bool \<times> json list) option" where
  "page_pass w page allStatuses =
     (case fetchJSON (page_response w page) of
        None \<Rightarrow> None
      | Some (Inl err) \<Rightarrow> Some (False, allStatuses)
      | Some (Inr statusesResponse) \<Rightarrow>
          (case deref (Some statusesResponse) of
             Inl err \<Rightarrow> Some (False, allStatuses)
           | Inr r \<Rightarrow>
               (if \<not> truthy_val (member r ''data'') \<or> \<not> isArray (member r ''data'')
                then Some (False, allStatuses)
                else (case member r ''data'' of
                        Some (JArr pageStatuses) \<Rightarrow>
                          Some (length pageStatuses > 0, allStatuses @ pageStatuses)
                      | _ \<Rightarrow> Some (False, allStatuses)))))"

text \<open>
  The loop itself (lines 93 to 132), with the requests it has issued so far. Each pass
  requests the current page once. The loop need not end: a server whose every page
  holds a status keeps it running, and a fetch that is never settled keeps it waiting;
  then there is no result (\<open>None\<close>). The pause of one second between two pages is not
  part of the model.
\<close>

partial_function (option) paginate ::
  "world \<Rightarrow> jsval \<Rightarrow> nat \<Rightarrow> json list \<Rightarrow> request list \<Rightarrow> (json list \<times> request list) option"
where
  "paginate w username page allStatuses reqs =
     (let reqs' = reqs @ [UserStatuses username page]
      in case page_pass w page allStatuses of
           None \<Rightarrow> None
         | Some pass \<Rightarrow>
             if fst pass then paginate w username (page + 1) (snd pass) reqs'
             else Some (snd pass, reqs'))"

declare paginate.simps [code]

section \<open>Statistics\<close>

text \<open>
  \<^verbatim>\<open>Array.prototype.map\<close> with a callback that can throw: the first throw ends the
  map.
\<close>

fun map_throwing :: "('a \<Rightarrow> error + 'b) \<Rightarrow> 'a list \<Rightarrow> error + 'b list" where
  "map_throwing f [] = Inr []"
| "map_throwing f (x # xs) =
     (case f x of
        Inl err \<Rightarrow> Inl err
      | Inr y \<Rightarrow> (case map_throwing f xs of Inl err \<Rightarrow> Inl err | Inr ys \<Rightarrow> Inr (y # ys)))"

text \<open>
  Line 139: the creation date of one status. A \<^verbatim>\<open>null\<close> status throws, and so does
  a \<^verbatim>\<open>createdAt\<close> that the \<^verbatim>\<open>Date\<close> constructor cannot convert.
\<close>

definition created :: "runtime \<Rightarrow> json \<Rightarrow> error + date" where
  "created rt s =
     (case deref (Some s) of
        Inl err \<Rightarrow> Inl err
      | Inr st \<Rightarrow> new_Date rt (member st ''createdAt''))"

text \<open>Lines 139 to 141: the dates of all statuses, the earliest and the latest.\<close>

definition date_range :: "runtime \<Rightarrow> json list \<Rightarrow> error + (date \<times> date)" where
  "date_range rt allStatuses =
     (case map_throwing (created rt) allStatuses of
        Inl err \<Rightarrow> Inl err
      | Inr dates \<Rightarrow>
          (case Math_min rt (map valueOf dates) of
             Inl err \<Rightarrow> Inl err
           | Inr lowest \<Rightarrow>
               (case Math_max rt (map valueOf dates) of
                  Inl err \<Rightarrow> Inl err
                | Inr highest \<Rightarrow> Inr (Date_of_number lowest, Date_of_number highest))))"

section \<open>The schema transform\<close>

text \<open>The \<^verbatim>\<open>meta.user\<close> literal of lines 166 to 186, from \<^verbatim>\<open>userProfile.data\<close>.\<close>

definition meta_user :: "json \<Rightarrow> json" where
  "meta_user d = object
     [(''id'', member d ''id''),
      (''displayName'', member d ''displayName''),
      (''username'', member d ''username''),
      (''profilePicture'', member d ''profilePicture''),
      (''trainDistance'', member d ''trainDistance''),
      (''totalDistance'', member d ''trainDistance''),
      (''trainDuration'', member d ''trainDuration''),
      (''totalDuration'', member d ''trainDuration''),
      (''points'', member d ''points''),
      (''mastodonUrl'', member d ''mastodonUrl''),
      (''privateProfile'', member d ''privateProfile''),
      (''preventIndex'', member d ''preventIndex''),
      (''likes_enabled'', member d ''likes_enabled''),
      (''pointsEnabled'', Some (JBool True)),
      (''userInvisibleToMe'', Some (JBool False)),
      (''muted'', Some (JBool False)),
      (''following'', Some (JBool False)),
      (''followPending'', Some (JBool False)),
      (''followedBy'', Some (JBool False))]"

text \<open>The six properties copied from a stop (lines 218 to 225 and 226 to 233).\<close>

definition stop :: "json \<Rightarrow> json" where
  "stop s = object
     [(''id'', member s ''id''),
      (''name'', member s ''name''),
      (''latitude'', member s ''latitude''),
      (''longitude'', member s ''longitude''),
      (''ibnr'', member s ''ibnr''),
      (''rilIdentifier'', member s ''rilIdentifier'')]"

text \<open>
  The callback of lines 191 to 236 on one status. The reads that can throw come in the
  order of the source: \<^verbatim>\<open>status.id\<close> first, which needs the status not to be
  \<^verbatim>\<open>null\<close>; \<^verbatim>\<open>status.train.trip\<close>, which needs a train; then the reads from the
  origin and from the destination.
\<close>

definition status_part :: "json \<Rightarrow> json" where
  "status_part st = object
     [(''id'', member st ''id''),
      (''body'', Some (or_default (member st ''body'') (JStr []))),
      (''bodyMentions'', Some (or_default (member st ''bodyMentions'') (JArr []))),
      (''user'', member st ''user''),
      (''username'', member st ''username''),
      (''profilePicture'', member st ''profilePicture''),
      (''preventIndex'', member st ''preventIndex''),
      (''business'', member st ''business''),
      (''visibility'', member st ''visibility''),
      (''likes'', member st ''likes''),
      (''liked'', member st ''liked''),
      (''isLikable'', member st ''isLikable''),
      (''client'', member st ''client''),
      (''createdAt'', member st ''createdAt''),
      (''train'', member st ''train''),
      (''event'', member st ''event''),
      (''userDetails'', member st ''userDetails''),
      (''tags'', Some (or_default (member st ''tags'') (JArr [])))]"

definition trip_part :: "json \<Rightarrow> json \<Rightarrow> json \<Rightarrow> json" where
  "trip_part train origin destination = object
     [(''id'', member train ''trip''),
      (''category'', member train ''category''),
      (''number'', member train ''number''),
      (''lineName'', member train ''lineName''),
      (''journeyNumber'', member train ''journeyNumber''),
      (''origin'', Some (stop origin)),
      (''destination'', Some (stop destination)),
      (''stopovers'', Some (or_default (member train ''stopovers'') (JArr [])))]"

definition transform_status :: "json \<Rightarrow> error + json" where
  "transform_status status =
     (case deref (Some status) of
        Inl err \<Rightarrow> Inl err
      | Inr st \<Rightarrow>
     (case deref (member st ''train'') of
        Inl err \<Rightarrow> Inl err
      | Inr train \<Rightarrow>
     (case deref (member train ''origin'') of
        Inl err \<Rightarrow> Inl err
      | Inr origin \<Rightarrow>
     (case deref (member train ''destination'') of
        Inl err \<Rightarrow> Inl err
      | Inr destination \<Rightarrow>
          Inr (object
            [(''status'', Some (status_part st)),
             (''trip'', Some (trip_part train origin destination))])))))"

text \<open>
  The \<^verbatim>\<open>exportData\<close> literal of lines 164 to 237, in the order it is evaluated:
  the header with its three dates, then the entries. \<open>now\<close> is the clock reading of
  \<^verbatim>\<open>new Date()\<close> at line 189.
\<close>

definition exportData ::
  "json \<Rightarrow> date \<Rightarrow> date \<Rightarrow> int \<Rightarrow> json list \<Rightarrow> error + json" where
  "exportData d earliest latest now allStatuses =
     (case toISOString earliest of
        Inl err \<Rightarrow> Inl err
      | Inr from \<Rightarrow>
     (case toISOString latest of
        Inl err \<Rightarrow> Inl err
      | Inr to \<Rightarrow>
     (case toISOString (Some now) of
        Inl err \<Rightarrow> Inl err
      | Inr exportedAt \<Rightarrow>
     (case map_throwing transform_status allStatuses of
        Inl err \<Rightarrow> Inl err
      | Inr entries \<Rightarrow>
          Inr (object
            [(''meta'', Some (object
               [(''user'', Some (meta_user d)),
                (''from'', Some (JStr from)),
                (''to'', Some (JStr to)),
                (''exportedAt'', Some (JStr exportedAt))])),
             (''data'', Some (JArr entries))])))))"

section \<open>The run\<close>

text \<open>
  The file that is written: \<^verbatim>\<open>${username}_statuses.json\<close>, kept by the interpolated
  username, and the document \<^verbatim>\<open>JSON.stringify\<close> renders into it.
\<close>

record export_file =
  file_user :: jsval
  content :: json

text \<open>
  Lines 134 to 246, what follows the loop. With no status nothing is done. Otherwise
  the date range is computed and printed, where \<^verbatim>\<open>toISOString\<close> throws on an invalid
  earliest or latest date (lines 144 and 145); the counts by month are only printed and
  cannot throw; the document is built and written. The result is the file written, if
  any, or the error thrown.
\<close>

definition after_loop ::
  "runtime \<Rightarrow> world \<Rightarrow> json \<Rightarrow> json list \<Rightarrow> error + export_file option" where
  "after_loop rt w d allStatuses =
     (if length allStatuses > 0 then
        (case date_range rt allStatuses of
           Inl err \<Rightarrow> Inl err
         | Inr (earliest, latest) \<Rightarrow>
        (case toISOString earliest of
           Inl err \<Rightarrow> Inl err
         | Inr e \<Rightarrow>
        (case toISOString latest of
           Inl err \<Rightarrow> Inl err
         | Inr l \<Rightarrow>
        (case exportData d earliest latest (clock w) allStatuses of
           Inl err \<Rightarrow> Inl err
         | Inr doc \<Rightarrow>
        (case write_error w of
           Some err \<Rightarrow> Inl err
         | None \<Rightarrow> Inr (Some \<lparr>file_user = member d ''username'', content = doc\<rparr>))))))
      else Inr None)"

text \<open>
  Lines 83 to 90: the profile request; \<^verbatim>\<open>userProfile.data.id\<close>, which throws when
  the response is \<^verbatim>\<open>null\<close> or has no \<^verbatim>\<open>data\<close>; and the template literal of line
  90, which throws when the id or the username does not convert to a string. The
  result is \<^verbatim>\<open>userProfile.data\<close>, and there is none when the profile request is
  never settled.
\<close>

definition identify :: "world \<Rightarrow> (error + json) option" where
  "identify w =
     (case fetchJSON (user_response w) of
        None \<Rightarrow> None
      | Some (Inl err) \<Rightarrow> Some (Inl err)
      | Some (Inr userProfile) \<Rightarrow>
          Some (case deref (Some userProfile) of
                  Inl err \<Rightarrow> Inl err
                | Inr u \<Rightarrow>
                    (case deref (member u ''data'') of
                       Inl err \<Rightarrow> Inl err
                     | Inr d \<Rightarrow>
                         if interpolates (member d ''id'')
                            \<and> interpolates (member d ''username'')
                         then Inr d else Inl TypeError)))"

text \<open>
  What a run that completes leaves behind: the requests it issued, in order; the file
  it wrote, if any; and the error that reached the \<^verbatim>\<open>catch\<close> of line 247, if any. A
  run whose loop does not end, or that waits for a fetch that is never settled,
  completes nothing and writes nothing (\<open>None\<close>). Console output
  is not part of the model, and neither is the check of the API token at startup, which
  ends the process before any run when the token is missing.
\<close>

record run_result =
  requests :: "request list"
  written :: "export_file option"
  caught :: "error option"

definition finish :: "request list \<Rightarrow> error + export_file option \<Rightarrow> run_result" where
  "finish reqs r =
     (case r of
        Inl err \<Rightarrow> \<lparr>requests = reqs, written = None, caught = Some err\<rparr>
      | Inr f \<Rightarrow> \<lparr>requests = reqs, written = f, caught = None\<rparr>)"

definition run :: "runtime \<Rightarrow> world \<Rightarrow> run_result option" where
  "run rt w =
     (case identify w of
        None \<Rightarrow> None
      | Some (Inl err) \<Rightarrow> Some (finish [AuthUser] (Inl err))
      | Some (Inr d) \<Rightarrow>
          (case paginate w (member d ''username'') 1 [] [AuthUser] of
             None \<Rightarrow> None
           | Some (allStatuses, reqs) \<Rightarrow> Some (finish reqs (after_loop rt w d allStatuses))))"

section \<open>Vocabulary of the properties\<close>

text \<open>
  The items of page \<open>p\<close> when its response is valid, that is, when the fetch resolves
  with a value whose \<^verbatim>\<open>data\<close> is an array; \<open>None\<close> for a fetch that is rejected or
  never settled and for any other shape. \<open>items_of\<close> reads a page that is not valid as
  holding no items, and a full page is a valid page with at least one item. A page is
  answered when its fetch is settled, resolved or rejected.
\<close>

definition page_items :: "world \<Rightarrow> nat \<Rightarrow> json list option" where
  "page_items w p =
     (case fetchJSON (page_response w p) of
        Some (Inr r) \<Rightarrow> (case member r ''data'' of Some (JArr xs) \<Rightarrow> Some xs | _ \<Rightarrow> None)
      | _ \<Rightarrow> None)"

definition answered :: "world \<Rightarrow> nat \<Rightarrow> bool" where
  "answered w p = (fetchJSON (page_response w p) \<noteq> None)"

definition items_of :: "world \<Rightarrow> nat \<Rightarrow> json list" where
  "items_of w p = (case page_items w p of None \<Rightarrow> [] | Some xs \<Rightarrow> xs)"

definition full_page :: "world \<Rightarrow> nat \<Rightarrow> bool" where
  "full_page w p = (case page_items w p of None \<Rightarrow> False | Some xs \<Rightarrow> xs \<noteq> [])"

text \<open>
  A page that fails: its fetch is rejected, or its response has no \<^verbatim>\<open>data\<close>, or a
  \<^verbatim>\<open>data\<close> that is not an array.
\<close>

definition page_broken :: "world \<Rightarrow> nat \<Rightarrow> bool" where
  "page_broken w p =
     (case fetchJSON (page_response w p) of
        None \<Rightarrow> False
      | Some (Inl err) \<Rightarrow> True
      | Some (Inr r) \<Rightarrow> member r ''data'' = None \<or> \<not> isArray (member r ''data''))"

text \<open>
  A status with a train whose origin and destination are present: none of the three is
  missing or \<^verbatim>\<open>null\<close>.
\<close>

definition train_complete :: "json \<Rightarrow> bool" where
  "train_complete s =
     (case member s ''train'' of
        None \<Rightarrow> False
      | Some train \<Rightarrow>
          train \<noteq> JNull \<and> \<not> nullish (member train ''origin'')
          \<and> \<not> nullish (member train ''destination''))"

text \<open>A status whose \<^verbatim>\<open>createdAt\<close> the \<^verbatim>\<open>Date\<close> constructor accepts.\<close>

definition dated :: "runtime \<Rightarrow> json \<Rightarrow> bool" where
  "dated rt s = (case created rt s of Inl err \<Rightarrow> False | Inr d \<Rightarrow> d \<noteq> None)"

text \<open>
  The document of lines 164 to 237 for a date range from \<open>e\<close> to \<open>l\<close>, a clock reading
  \<open>now\<close> and transformed entries.
\<close>

definition document :: "json \<Rightarrow> int \<Rightarrow> int \<Rightarrow> int \<Rightarrow> json list \<Rightarrow> json" where
  "document d e l now entries = object
     [(''meta'', Some (object
        [(''user'', Some (meta_user d)),
         (''from'', Some (JStr (iso_string e))),
         (''to'', Some (JStr (iso_string l))),
         (''exportedAt'', Some (JStr (iso_string now)))])),
      (''data'', Some (JArr entries))]"

text \<open>A written document with \<^verbatim>\<open>meta.exportedAt\<close> taken out.\<close>

definition remove_key :: "string \<Rightarrow> json \<Rightarrow> json" where
  "remove_key k j = (case j of JObj kvs \<Rightarrow> JObj (filter (\<lambda>kv. fst kv \<noteq> k) kvs) | _ \<Rightarrow> j)"

definition without_exportedAt :: "json \<Rightarrow> json" where
  "without_exportedAt doc =
     (case doc of
        JObj kvs \<Rightarrow>
          JObj (map (\<lambda>kv. if fst kv = ''meta''
                           then (fst kv, remove_key ''exportedAt'' (snd kv)) else kv) kvs)
      | _ \<Rightarrow> doc)"

section \<open>Example data\<close>

text \<open>
  An engine that reads the two timestamps of the examples as dates and takes up to
  120000 arguments in one call, two statuses of a user
  \<^verbatim>\<open>alice\<close>, a status without a train, a status without a creation date, and
  worlds that answer the page requests from a script, every page after the script
  being empty.
\<close>

definition two_dates :: runtime where
  "two_dates = \<lparr>Date_parse = (\<lambda>j.
     if j = JStr ''2024-01-05T00:00:00.000Z'' then Some 1704412800000
     else if j = JStr ''2024-02-10T00:00:00.000Z'' then Some 1707523200000
     else None),
     argument_limit = 120000\<rparr>"

definition station :: "rat \<Rightarrow> string \<Rightarrow> json" where
  "station n name = JObj [(''id'', JNum n), (''name'', JStr name)]"

definition status_jan :: json where
  "status_jan = JObj
     [(''id'', JNum 10),
      (''createdAt'', JStr ''2024-01-05T00:00:00.000Z''),
      (''train'', JObj
         [(''trip'', JNum 7),
          (''origin'', station 1 ''Aachen''),
          (''destination'', station 2 ''Bonn'')])]"

definition status_feb :: json where
  "status_feb = JObj
     [(''id'', JNum 11),
      (''body'', JStr ''late''),
      (''createdAt'', JStr ''2024-02-10T00:00:00.000Z''),
      (''train'', JObj
         [(''trip'', JNum 8),
          (''origin'', station 2 ''Bonn''),
          (''destination'', station 1 ''Aachen''),
          (''stopovers'', JArr [station 3 ''Dueren''])])]"

definition status_no_train :: json where
  "status_no_train = JObj
     [(''id'', JNum 12),
      (''createdAt'', JStr ''2024-02-10T00:00:00.000Z'')]"

definition status_undated :: json where
  "status_undated = JObj
     [(''id'', JNum 13),
      (''train'', JObj
         [(''trip'', JNum 9),
          (''origin'', station 1 ''Aachen''),
          (''destination'', station 2 ''Bonn'')])]"

definition alice :: json where
  "alice = JObj
     [(''id'', JNum 1),
      (''username'', JStr ''alice''),
      (''trainDistance'', JNum 1200),
      (''trainDuration'', JNum 90),
      (''pointsEnabled'', JBool False),
      (''muted'', JBool True),
      (''following'', JBool True)]"

definition page_of :: "json list \<Rightarrow> http_outcome" where
  "page_of xs = Response 200 (Some (JObj [(''data'', JArr xs)]))"

definition scripted :: "http_outcome list \<Rightarrow> world" where
  "scripted pages =
     \<lparr>user_response = Response 200 (Some (JObj [(''data'', alice)])),
      page_response = (\<lambda>p. if 1 \<le> p \<and> p \<le> length pages then pages ! (p - 1)
                             else page_of []),
      clock = 1718000000000,
      write_error = None\<rparr>"

definition two_then_empty :: world where
  "two_then_empty = scripted [page_of [status_jan, status_feb]]"

definition second_page_fails :: world where
  "second_page_fails = scripted [page_of [status_jan, status_feb], Response 500 None]"

definition first_page_fails :: world where
  "first_page_fails = scripted [Response 500 None]"

definition with_no_train :: world where
  "with_no_train = scripted [page_of [status_jan, status_no_train]]"

definition with_undated :: world where
  "with_undated = scripted [page_of [status_undated]]"

definition second_page_cut :: world where
  "second_page_cut = scripted [page_of [status_jan, status_feb], Truncated 200]"

section \<open>Lemmas on the pagination loop\<close>

lemma page_pass_items:
  "page_pass w p acc =
     (if answered w p
      then Some (case page_items w p of None \<Rightarrow> (False, acc) | Some xs \<Rightarrow> (xs \<noteq> [], acc @ xs))
      else None)"
proof (cases "fetchJSON (page_response w p)")
  case None
  then show ?thesis by (simp add: page_pass_def answered_def)
next
  case (Some res)
  show ?thesis
  proof (cases res)
    case (Inl e)
    with Some show ?thesis by (simp add: page_pass_def page_items_def answered_def)
  next
    case (Inr r)
    show ?thesis
    proof (cases "member r ''data''")
      case None
      with Some Inr show ?thesis
        by (cases r)
           (simp_all add: page_pass_def page_items_def answered_def deref_def nullish_def
              truthy_val_def)
    next
      case v: (Some v)
      with Some Inr show ?thesis
        by (cases r; cases v)
           (simp_all add: page_pass_def page_items_def answered_def deref_def nullish_def
              truthy_val_def)
    qed
  qed
qed

lemma full_page_answered: "full_page w p \<Longrightarrow> answered w p"
  by (auto simp: full_page_def page_items_def answered_def split: option.splits)

lemma page_pass_full:
  "full_page w p \<Longrightarrow> page_pass w p acc = Some (True, acc @ items_of w p)"
  by (auto simp: page_pass_items full_page_answered full_page_def items_of_def
      split: option.splits)

lemma page_pass_stop:
  "\<not> full_page w p \<Longrightarrow> answered w p \<Longrightarrow> page_pass w p acc = Some (False, acc @ items_of w p)"
  by (auto simp: page_pass_items full_page_def items_of_def split: option.splits)

lemma page_pass_unsettled: "\<not> answered w p \<Longrightarrow> page_pass w p acc = None"
  by (simp add: page_pass_items)

lemma paginate_stops:
  assumes "p \<le> n" and "\<forall>i. p \<le> i \<and> i < n \<longrightarrow> full_page w i"
    and "\<not> full_page w n" and "answered w n"
  shows "paginate w u p acc reqs =
           Some (acc @ concat (map (items_of w) [p..<Suc n]),
                 reqs @ map (UserStatuses u) [p..<Suc n])"
  using assms
proof (induction "n - p" arbitrary: p acc reqs)
  case 0
  then have "p = n" by simp
  with 0 show ?case
    by (subst paginate.simps) (simp add: page_pass_stop)
next
  case (Suc k)
  then have lt: "p < n" and full: "full_page w p" by auto
  have step: "paginate w u (p + 1) (acc @ items_of w p) (reqs @ [UserStatuses u p]) =
      Some ((acc @ items_of w p) @ concat (map (items_of w) [p + 1..<Suc n]),
            (reqs @ [UserStatuses u p]) @ map (UserStatuses u) [p + 1..<Suc n])"
    using Suc by (intro Suc.hyps(1)) auto
  have up: "[p..<Suc n] = p # [p + 1..<Suc n]"
    using lt by (simp add: upt_conv_Cons)
  show ?case
    using step by (subst paginate.simps) (simp add: page_pass_full [OF full] up del: upt_Suc)
qed

lemma paginate_waits:
  assumes "p \<le> n" and "\<forall>i. p \<le> i \<and> i < n \<longrightarrow> full_page w i" and "\<not> answered w n"
  shows "paginate w u p acc reqs = None"
  using assms
proof (induction "n - p" arbitrary: p acc reqs)
  case 0
  then have "p = n" by simp
  with 0 show ?case
    by (subst paginate.simps) (simp add: page_pass_unsettled)
next
  case (Suc k)
  then have lt: "p < n" and full: "full_page w p" by auto
  have step: "paginate w u (p + 1) (acc @ items_of w p) (reqs @ [UserStatuses u p]) = None"
    using Suc by (intro Suc.hyps(1)) auto
  show ?case
    using step by (subst paginate.simps) (simp add: page_pass_full [OF full])
qed

lemma page_broken_items: "page_broken w p \<longleftrightarrow> answered w p \<and> page_items w p = None"
proof (cases "fetchJSON (page_response w p)")
  case None
  then show ?thesis by (simp add: page_broken_def page_items_def answered_def)
next
  case (Some res)
  show ?thesis
  proof (cases res)
    case (Inl e)
    with Some show ?thesis by (simp add: page_broken_def page_items_def answered_def)
  next
    case (Inr r)
    show ?thesis
    proof (cases "member r ''data''")
      case None
      with Some Inr show ?thesis by (simp add: page_broken_def page_items_def answered_def)
    next
      case v: (Some v)
      with Some Inr show ?thesis
        by (cases v) (simp_all add: page_broken_def page_items_def answered_def)
    qed
  qed
qed

lemma first_stop:
  assumes "p \<le> N" and "\<not> full_page w N"
  obtains m where "p \<le> m" and "m \<le> N" and "\<not> full_page w m"
    and "\<forall>i. p \<le> i \<and> i < m \<longrightarrow> full_page w i"
proof -
  define m where "m = (LEAST i. p \<le> i \<and> \<not> full_page w i)"
  have ex: "p \<le> N \<and> \<not> full_page w N"
    using assms by simp
  have "p \<le> m \<and> \<not> full_page w m"
    unfolding m_def using ex by (rule LeastI)
  moreover have "m \<le> N"
    unfolding m_def using ex by (rule Least_le)
  moreover have "\<forall>i. p \<le> i \<and> i < m \<longrightarrow> full_page w i"
    unfolding m_def using not_less_Least by blast
  ultimately show ?thesis
    using that by blast
qed

lemma empty_page_not_full: "page_items w N = Some [] \<Longrightarrow> \<not> full_page w N"
  by (simp add: full_page_def)

lemma empty_page_answered: "page_items w N = Some [] \<Longrightarrow> answered w N"
  by (auto simp: page_items_def answered_def split: option.splits)

lemma broken_page_not_full: "page_broken w N \<Longrightarrow> \<not> full_page w N"
  by (simp add: full_page_def page_broken_items)

lemma broken_page_answered: "page_broken w N \<Longrightarrow> answered w N"
  by (simp add: page_broken_items)

lemma items_of_not_full: "\<not> full_page w N \<Longrightarrow> items_of w N = []"
  by (auto simp: full_page_def items_of_def split: option.splits)

lemma full_page_iff:
  "full_page w i \<longleftrightarrow> page_items w i \<noteq> None \<and> page_items w i \<noteq> Some []"
  by (auto simp: full_page_def split: option.splits)

section \<open>Lemmas on object literals\<close>

lemma properties_keys: "fst ` set (properties kvs) \<subseteq> fst ` set kvs"
  by (induction kvs rule: properties.induct) auto

lemma map_of_properties:
  "distinct (map fst kvs) \<Longrightarrow>
   map_of (properties kvs) k = (case map_of kvs k of None \<Rightarrow> None | Some v \<Rightarrow> v)"
proof (induction kvs rule: properties.induct)
  case 1
  then show ?case by simp
next
  case (2 k' kvs)
  have "k' \<notin> fst ` set (properties kvs)"
    using 2 properties_keys [of kvs] by auto
  then have "map_of (properties kvs) k' = None"
    by (simp add: map_of_eq_None_iff)
  moreover have "map_of kvs k' = None"
    using 2 by (simp add: map_of_eq_None_iff)
  ultimately show ?case
    using 2 by simp
next
  case (3 k' j kvs)
  then show ?case by simp
qed

lemma member_object:
  "distinct (map fst kvs) \<Longrightarrow>
   member (object kvs) k = (case map_of kvs k of None \<Rightarrow> None | Some v \<Rightarrow> v)"
  by (simp add: object_def map_of_properties)

lemma or_default_undefined: "or_default None d = d"
  by (simp add: or_default_def truthy_val_def)

lemma status_part_body:
  "member (status_part st) ''body'' = Some (or_default (member st ''body'') (JStr []))"
  by (simp add: status_part_def member_object)

lemma status_part_bodyMentions:
  "member (status_part st) ''bodyMentions''
     = Some (or_default (member st ''bodyMentions'') (JArr []))"
  by (simp add: status_part_def member_object)

lemma status_part_tags:
  "member (status_part st) ''tags'' = Some (or_default (member st ''tags'') (JArr []))"
  by (simp add: status_part_def member_object)

lemma trip_part_stopovers:
  "member (trip_part train origin destination) ''stopovers''
     = Some (or_default (member train ''stopovers'') (JArr []))"
  by (simp add: trip_part_def member_object)

lemma exportData_Inr:
  assumes "exportData d earliest latest now allStatuses = Inr doc"
  obtains iso_from iso_to entries where
    "toISOString earliest = Inr iso_from" and "toISOString latest = Inr iso_to"
    and "map_throwing transform_status allStatuses = Inr entries"
    and "doc = object
           [(''meta'', Some (object
              [(''user'', Some (meta_user d)),
               (''from'', Some (JStr iso_from)),
               (''to'', Some (JStr iso_to)),
               (''exportedAt'', Some (JStr (iso_string now)))])),
            (''data'', Some (JArr entries))]"
  using assms by (auto simp: exportData_def toISOString_def split: sum.splits option.splits)

lemma exportData_meta_user:
  "exportData d earliest latest now allStatuses = Inr doc \<Longrightarrow>
   at_path doc [''meta'', ''user'', k] = member (meta_user d) k"
  by (erule exportData_Inr) (simp add: object_def split: option.splits)

section \<open>Lemmas on the statistics\<close>

lemma TimeClip_range: "TimeClip r = Some t \<Longrightarrow> \<bar>t\<bar> \<le> 8640000000000000"
proof -
  assume clip: "TimeClip r = Some t"
  then have r: "\<bar>r\<bar> \<le> 8640000000000000"
    by (simp add: TimeClip_def split: if_splits)
  show ?thesis
  proof (cases "0 \<le> r")
    case True
    with clip r have t: "t = \<lfloor>r\<rfloor>"
      by (simp add: TimeClip_def split: if_splits)
    have "0 \<le> \<lfloor>r\<rfloor>" using True by simp
    moreover have "\<lfloor>r\<rfloor> \<le> 8640000000000000"
      using r True by (simp add: floor_le_iff)
    ultimately show ?thesis using t by arith
  next
    case False
    with clip r have t: "t = \<lceil>r\<rceil>"
      by (simp add: TimeClip_def split: if_splits)
    have "\<lceil>r\<rceil> \<le> 0" using False by (simp add: ceiling_le_iff)
    moreover have "- 8640000000000000 \<le> \<lceil>r\<rceil>"
      using r False by (simp add: le_ceiling_iff)
    ultimately show ?thesis using t by arith
  qed
qed

lemma TimeClip_of_int: "\<bar>t\<bar> \<le> 8640000000000000 \<Longrightarrow> TimeClip (of_int t) = Some t"
proof -
  assume "\<bar>t\<bar> \<le> 8640000000000000"
  then have "\<bar>(of_int t :: rat)\<bar> \<le> of_int 8640000000000000"
    unfolding of_int_abs [symmetric] of_int_le_iff .
  then show ?thesis
    by (simp add: TimeClip_def)
qed

lemma new_Date_range: "new_Date rt v = Inr (Some t) \<Longrightarrow> \<bar>t\<bar> \<le> 8640000000000000"
  by (induction rt v rule: new_Date.induct)
     (auto dest: TimeClip_range split: option.splits if_splits)

lemma created_range: "created rt s = Inr (Some t) \<Longrightarrow> \<bar>t\<bar> \<le> 8640000000000000"
  by (auto simp: created_def dest: new_Date_range split: sum.splits)

lemma map_throwing_Inr:
  "map f xs = map Inr ys \<Longrightarrow> map_throwing f xs = Inr ys"
proof (induction xs arbitrary: ys)
  case Nil
  then show ?case by simp
next
  case (Cons x xs)
  then obtain y ys' where "ys = y # ys'" by (cases ys) auto
  with Cons show ?case by simp
qed

lemma min_from_Fin: "min_from (Fin a) (map Fin ts) = Fin (fold min ts a)"
proof (induction ts arbitrary: a)
  case Nil
  then show ?case by simp
next
  case (Cons t ts)
  have "(if t < a then Fin t else Fin a) = Fin (min t a)"
    by (simp add: min_def)
  with Cons show ?case by simp
qed

lemma max_from_Fin: "max_from (Fin a) (map Fin ts) = Fin (fold max ts a)"
proof (induction ts arbitrary: a)
  case Nil
  then show ?case by simp
next
  case (Cons t ts)
  have "(if a < t then Fin t else Fin a) = Fin (max t a)"
    by (simp add: max_def)
  with Cons show ?case by simp
qed

lemma Math_min_Fin:
  "ts \<noteq> [] \<Longrightarrow> int (length ts) \<le> argument_limit rt \<Longrightarrow>
   Math_min rt (map Fin ts) = Inr (Fin (Min (set ts)))"
proof -
  assume limit: "int (length ts) \<le> argument_limit rt"
  assume "ts \<noteq> []"
  then obtain t ts' where ts: "ts = t # ts'"
    by (cases ts) auto
  have "fold min ts' t = Min (set (t # ts'))"
    by (rule Min.set_eq_fold [symmetric])
  then show ?thesis
    using limit unfolding ts by (simp add: Math_min_def min_from_Fin)
qed

lemma Math_max_Fin:
  "ts \<noteq> [] \<Longrightarrow> int (length ts) \<le> argument_limit rt \<Longrightarrow>
   Math_max rt (map Fin ts) = Inr (Fin (Max (set ts)))"
proof -
  assume limit: "int (length ts) \<le> argument_limit rt"
  assume "ts \<noteq> []"
  then obtain t ts' where ts: "ts = t # ts'"
    by (cases ts) auto
  have "fold max ts' t = Max (set (t # ts'))"
    by (rule Max.set_eq_fold [symmetric])
  then show ?thesis
    using limit unfolding ts by (simp add: Math_max_def max_from_Fin)
qed

lemma date_range_Min_Max:
  assumes "allStatuses \<noteq> []"
    and "map (created rt) allStatuses = map (\<lambda>t. Inr (Some t)) ts"
    and "int (length allStatuses) \<le> argument_limit rt"
  shows "date_range rt allStatuses = Inr (Some (Min (set ts)), Some (Max (set ts)))"
proof -
  have ne: "ts \<noteq> []"
    using assms by auto
  have "length ts = length allStatuses"
    using assms(2) by (metis length_map)
  with assms(3) have limit: "int (length ts) \<le> argument_limit rt"
    by simp
  have "map (created rt) allStatuses = map Inr (map Some ts)"
    using assms(2) by simp
  then have dates: "map_throwing (created rt) allStatuses = Inr (map Some ts)"
    by (rule map_throwing_Inr)
  have range: "\<bar>t\<bar> \<le> 8640000000000000" if "t \<in> set ts" for t
  proof -
    from that have "Inr (Some t) \<in> set (map (created rt) allStatuses)"
      unfolding assms(2) by simp
    then obtain s where "created rt s = Inr (Some t)" by auto
    then show ?thesis by (rule created_range)
  qed
  have "Min (set ts) \<in> set ts" and "Max (set ts) \<in> set ts"
    using ne by (simp_all add: Min_in Max_in)
  then have clip: "TimeClip (of_int (Min (set ts))) = Some (Min (set ts))"
    "TimeClip (of_int (Max (set ts))) = Some (Max (set ts))"
    using range by (simp_all add: TimeClip_of_int)
  have nums: "map valueOf (map Some ts) = map Fin ts"
    by (simp add: valueOf_def)
  show ?thesis
    unfolding date_range_def dates
    by (simp only: sum.case nums Math_min_Fin [OF ne limit] Math_max_Fin [OF ne limit]
          Date_of_number_def jsnum.case clip)
qed



section \<open>Lemmas on the transform and the write\<close>

lemma deref_Inr_iff: "deref v = Inr j \<longleftrightarrow> v = Some j \<and> j \<noteq> JNull"
  by (cases v) (auto simp: deref_def nullish_def)

lemma deref_Inl_iff: "deref v = Inl err \<longleftrightarrow> nullish v \<and> err = TypeError"
  by (auto simp: deref_def)

lemma train_complete_iff:
  "train_complete s \<longleftrightarrow>
     (\<exists>train origin destination.
        deref (member s ''train'') = Inr train
      \<and> deref (member train ''origin'') = Inr origin
      \<and> deref (member train ''destination'') = Inr destination)"
  by (auto simp: train_complete_def deref_Inr_iff nullish_def split: option.splits)

lemma deref_status: "s \<noteq> JNull \<Longrightarrow> deref (Some s) = Inr s"
  by (simp add: deref_Inr_iff)

lemma train_complete_not_null: "train_complete s \<Longrightarrow> s \<noteq> JNull"
  by (auto simp: train_complete_def)

lemma transform_status_complete: "train_complete s \<Longrightarrow> \<not> isl (transform_status s)"
proof -
  assume c: "train_complete s"
  then obtain train origin destination where
    "deref (member s ''train'') = Inr train"
    "deref (member train ''origin'') = Inr origin"
    "deref (member train ''destination'') = Inr destination"
    unfolding train_complete_iff by blast
  then show ?thesis
    using deref_status [OF train_complete_not_null [OF c]]
    by (simp add: transform_status_def)
qed


lemma transform_status_incomplete: "\<not> train_complete s \<Longrightarrow> transform_status s = Inl TypeError"
proof (cases "deref (Some s)")
  case (Inl err)
  moreover from Inl have "err = TypeError"
    by (simp add: deref_Inl_iff)
  ultimately show ?thesis
    by (simp add: transform_status_def)
next
  case (Inr st)
  then have st: "deref (Some s) = Inr s"
    by (simp add: deref_Inr_iff)
  assume n: "\<not> train_complete s"
  show ?thesis
  proof (cases "deref (member s ''train'')")
    case (Inl err)
    moreover from Inl have "err = TypeError"
      by (simp add: deref_Inl_iff)
    ultimately show ?thesis
      using st by (simp add: transform_status_def)
  next
    case train: (Inr train)
    show ?thesis
    proof (cases "deref (member train ''origin'')")
      case (Inl err)
      moreover from Inl have "err = TypeError"
        by (simp add: deref_Inl_iff)
      ultimately show ?thesis
        using st train by (simp add: transform_status_def)
    next
      case origin: (Inr origin)
      show ?thesis
      proof (cases "deref (member train ''destination'')")
        case (Inl err)
        moreover from Inl have "err = TypeError"
          by (simp add: deref_Inl_iff)
        ultimately show ?thesis
          using st train origin by (simp add: transform_status_def)
      next
        case (Inr destination)
        with train origin have "train_complete s"
          unfolding train_complete_iff by blast
        with n show ?thesis by contradiction
      qed
    qed
  qed
qed


lemma transform_status_error: "transform_status s = Inl err \<Longrightarrow> err = TypeError"
proof (cases "train_complete s")
  case True
  assume "transform_status s = Inl err"
  with transform_status_complete [OF True] show ?thesis by simp
next
  case False
  assume "transform_status s = Inl err"
  with transform_status_incomplete [OF False] show ?thesis by simp
qed

lemma map_throwing_ok: "\<forall>x\<in>set xs. \<not> isl (f x) \<Longrightarrow> \<not> isl (map_throwing f xs)"
proof (induction xs)
  case Nil
  then show ?case by simp
next
  case (Cons x xs)
  then obtain y ys where "f x = Inr y" and "map_throwing f xs = Inr ys"
    by (metis list.set_intros sum.collapse(2))
  then show ?case by simp
qed

lemma map_throwing_fails:
  assumes "x \<in> set xs" and "f x = Inl c" and "\<forall>y err. f y = Inl err \<longrightarrow> err = c"
  shows "map_throwing f xs = Inl c"
  using assms(1)
proof (induction xs)
  case Nil
  then show ?case by simp
next
  case (Cons a xs)
  show ?case
  proof (cases "f a")
    case (Inl err)
    with assms(3) have "err = c" by blast
    with Inl show ?thesis by simp
  next
    case (Inr y)
    with assms(2) have "x \<noteq> a" by auto
    with Cons have "map_throwing f xs = Inl c" by simp
    with Inr show ?thesis by simp
  qed
qed

lemma exportData_incomplete:
  assumes "s \<in> set allStatuses" and "\<not> train_complete s"
  shows "exportData d (Some e) (Some l) now allStatuses = Inl TypeError"
proof -
  have "map_throwing transform_status allStatuses = Inl TypeError"
    using assms(1) transform_status_incomplete [OF assms(2)]
    by (rule map_throwing_fails) (auto dest: transform_status_error)
  then show ?thesis
    by (simp add: exportData_def toISOString_def)
qed

lemma exportData_complete:
  assumes "\<forall>s\<in>set allStatuses. train_complete s"
  shows "\<not> isl (exportData d (Some e) (Some l) now allStatuses)"
proof -
  have "\<not> isl (map_throwing transform_status allStatuses)"
    using assms by (intro map_throwing_ok) (auto dest: transform_status_complete)
  then show ?thesis
    by (auto simp: exportData_def toISOString_def split: sum.splits)
qed

lemma dated_list:
  "\<forall>s\<in>set allStatuses. dated rt s \<Longrightarrow>
   \<exists>ts. map (created rt) allStatuses = map (\<lambda>t. Inr (Some t)) ts"
proof (induction allStatuses)
  case Nil
  then show ?case by simp
next
  case (Cons s allStatuses)
  then obtain ts where ts: "map (created rt) allStatuses = map (\<lambda>t. Inr (Some t)) ts"
    by auto
  from Cons.prems obtain t where "created rt s = Inr (Some t)"
    by (auto simp: dated_def split: sum.splits)
  with ts have "map (created rt) (s # allStatuses) = map (\<lambda>t. Inr (Some t)) (t # ts)"
    by simp
  then show ?case ..
qed

lemma exportData_document:
  "map_throwing transform_status allStatuses = Inr entries \<Longrightarrow>
   exportData d (Some e) (Some l) now allStatuses = Inr (document d e l now entries)"
  by (simp add: exportData_def toISOString_def document_def)

lemma after_loop_writes:
  assumes "allStatuses \<noteq> []" and "\<forall>s\<in>set allStatuses. dated rt s"
    and "\<forall>s\<in>set allStatuses. train_complete s" and "write_error w = None"
    and "int (length allStatuses) \<le> argument_limit rt"
  shows "\<exists>ts entries.
           map (created rt) allStatuses = map (\<lambda>t. Inr (Some t)) ts
         \<and> map_throwing transform_status allStatuses = Inr entries
         \<and> after_loop rt w d allStatuses
             = Inr (Some \<lparr>file_user = member d ''username'',
                           content = document d (Min (set ts)) (Max (set ts)) (clock w)
                                       entries\<rparr>)"
proof -
  from dated_list [OF assms(2)] obtain ts where
    ts: "map (created rt) allStatuses = map (\<lambda>t. Inr (Some t)) ts" ..
  with assms(1) have range:
    "date_range rt allStatuses = Inr (Some (Min (set ts)), Some (Max (set ts)))"
    using assms(5) by (rule date_range_Min_Max)
  have "\<not> isl (map_throwing transform_status allStatuses)"
    using assms(3) by (intro map_throwing_ok) (auto dest: transform_status_complete)
  then obtain entries where
    entries: "map_throwing transform_status allStatuses = Inr entries"
    by (metis sum.collapse(2))
  have "exportData d (Some (Min (set ts))) (Some (Max (set ts))) (clock w) allStatuses
          = Inr (document d (Min (set ts)) (Max (set ts)) (clock w) entries)"
    using entries by (rule exportData_document)
  then have "after_loop rt w d allStatuses
           = Inr (Some \<lparr>file_user = member d ''username'',
                         content = document d (Min (set ts)) (Max (set ts)) (clock w)
                                     entries\<rparr>)"
    using assms(1,4) range by (simp add: after_loop_def toISOString_def)
  with ts entries show ?thesis
    by blast
qed

lemma after_loop_entered:
  assumes "allStatuses \<noteq> []"
  shows "after_loop rt w d allStatuses \<noteq> Inr None"
proof -
  have ne: "length allStatuses > 0"
    using assms by simp
  show ?thesis
  proof (cases "date_range rt allStatuses")
    case (Inl err)
    with ne show ?thesis
      by (simp add: after_loop_def)
  next
    case (Inr r)
    obtain earliest latest where r: "r = (earliest, latest)"
      by (cases r)
    show ?thesis
    proof (cases "toISOString earliest")
      case (Inl err)
      with Inr r ne show ?thesis
        by (simp add: after_loop_def)
    next
      case e: (Inr e)
      show ?thesis
      proof (cases "toISOString latest")
        case (Inl err)
        with Inr r ne e show ?thesis
          by (simp add: after_loop_def)
      next
        case l: (Inr l)
        show ?thesis
        proof (cases "exportData d earliest latest (clock w) allStatuses")
          case (Inl err)
          with Inr r ne e l show ?thesis
            by (simp add: after_loop_def)
        next
          case doc: (Inr doc)
          show ?thesis
          proof (cases "write_error w")
            case None
            with Inr r ne e l doc show ?thesis
              by (simp add: after_loop_def)
          next
            case (Some err)
            with Inr r ne e l doc show ?thesis
              by (simp add: after_loop_def)
          qed
        qed
      qed
    qed
  qed
qed

lemma after_loop_throws:
  assumes "s \<in> set allStatuses" and "\<not> train_complete s"
  shows "isl (after_loop rt w d allStatuses)"
proof (cases "date_range rt allStatuses")
  case (Inl err)
  moreover have "length allStatuses > 0"
    using assms(1) by (cases allStatuses) auto
  ultimately show ?thesis
    by (simp add: after_loop_def)
next
  case (Inr r)
  obtain earliest latest where r: "r = (earliest, latest)"
    by (cases r)
  have ne: "length allStatuses > 0"
    using assms(1) by (cases allStatuses) auto
  show ?thesis
  proof (cases earliest)
    case None
    with Inr r ne show ?thesis
      by (simp add: after_loop_def toISOString_def)
  next
    case e: (Some e)
    show ?thesis
    proof (cases latest)
      case None
      with Inr r ne e show ?thesis
        by (simp add: after_loop_def toISOString_def)
    next
      case (Some l)
      have "exportData d (Some e) (Some l) (clock w) allStatuses = Inl TypeError"
        using assms by (rule exportData_incomplete)
      with Inr r ne e Some show ?thesis
        by (simp add: after_loop_def toISOString_def)
    qed
  qed
qed

section \<open>Properties of the schema transform\<close>

text \<open>
  C6. Whatever the profile holds, the \<^verbatim>\<open>meta.user\<close> of every document the transform
  produces has \<^verbatim>\<open>pointsEnabled\<close> true and \<^verbatim>\<open>userInvisibleToMe\<close>, \<^verbatim>\<open>muted\<close>,
  \<^verbatim>\<open>following\<close>, \<^verbatim>\<open>followPending\<close> and \<^verbatim>\<open>followedBy\<close> false.
\<close>

theorem fixed_literals:
  "exportData d earliest latest now allStatuses = Inr doc \<Longrightarrow>
     at_path doc [''meta'', ''user'', ''pointsEnabled''] = Some (JBool True)
   \<and> at_path doc [''meta'', ''user'', ''userInvisibleToMe''] = Some (JBool False)
   \<and> at_path doc [''meta'', ''user'', ''muted''] = Some (JBool False)
   \<and> at_path doc [''meta'', ''user'', ''following''] = Some (JBool False)
   \<and> at_path doc [''meta'', ''user'', ''followPending''] = Some (JBool False)
   \<and> at_path doc [''meta'', ''user'', ''followedBy''] = Some (JBool False)"
proof -
  assume "exportData d earliest latest now allStatuses = Inr doc"
  note user = exportData_meta_user [OF this]
  show ?thesis
    unfolding user by (simp add: meta_user_def member_object)
qed

theorem fixed_literals_witness:
  "(\<exists>doc. exportData alice (Some 1704412800000) (Some 1707523200000) 1718000000000
             [status_jan, status_feb] = Inr doc
     \<and> member alice ''pointsEnabled'' = Some (JBool False)
     \<and> member alice ''muted'' = Some (JBool True)
     \<and> at_path doc [''meta'', ''user'', ''pointsEnabled''] = Some (JBool True)
     \<and> at_path doc [''meta'', ''user'', ''userInvisibleToMe''] = Some (JBool False)
     \<and> at_path doc [''meta'', ''user'', ''muted''] = Some (JBool False)
     \<and> at_path doc [''meta'', ''user'', ''following''] = Some (JBool False)
     \<and> at_path doc [''meta'', ''user'', ''followPending''] = Some (JBool False)
     \<and> at_path doc [''meta'', ''user'', ''followedBy''] = Some (JBool False))"
proof -
  have "\<not> isl (exportData alice (Some 1704412800000) (Some 1707523200000) 1718000000000
                  [status_jan, status_feb])"
    by code_simp
  then obtain doc where
    doc: "exportData alice (Some 1704412800000) (Some 1707523200000) 1718000000000
            [status_jan, status_feb] = Inr doc"
    by (metis sum.collapse(2))
  have src: "member alice ''pointsEnabled'' = Some (JBool False)
             \<and> member alice ''muted'' = Some (JBool True)"
    by (simp add: alice_def)
  from fixed_literals [OF doc] doc src show ?thesis by blast
qed

text \<open>
  C9. In every document the transform produces, \<^verbatim>\<open>meta.user.totalDistance\<close> is
  \<^verbatim>\<open>meta.user.trainDistance\<close> and \<^verbatim>\<open>meta.user.totalDuration\<close> is
  \<^verbatim>\<open>meta.user.trainDuration\<close>, each pair being the train field of the profile.
\<close>

theorem totals_copy_train:
  "exportData d earliest latest now allStatuses = Inr doc \<Longrightarrow>
     at_path doc [''meta'', ''user'', ''totalDistance'']
       = at_path doc [''meta'', ''user'', ''trainDistance'']
   \<and> at_path doc [''meta'', ''user'', ''trainDistance''] = member d ''trainDistance''
   \<and> at_path doc [''meta'', ''user'', ''totalDuration'']
       = at_path doc [''meta'', ''user'', ''trainDuration'']
   \<and> at_path doc [''meta'', ''user'', ''trainDuration''] = member d ''trainDuration''"
proof -
  assume "exportData d earliest latest now allStatuses = Inr doc"
  note user = exportData_meta_user [OF this]
  show ?thesis
    unfolding user by (simp add: meta_user_def member_object split: option.splits)
qed

theorem totals_copy_train_witness:
  "(\<exists>doc. exportData alice (Some 1704412800000) (Some 1707523200000) 1718000000000
             [status_jan] = Inr doc
     \<and> at_path doc [''meta'', ''user'', ''totalDistance''] = Some (JNum 1200)
     \<and> at_path doc [''meta'', ''user'', ''trainDistance''] = Some (JNum 1200)
     \<and> at_path doc [''meta'', ''user'', ''totalDuration''] = Some (JNum 90)
     \<and> at_path doc [''meta'', ''user'', ''trainDuration''] = Some (JNum 90))"
proof -
  have "\<not> isl (exportData alice (Some 1704412800000) (Some 1707523200000) 1718000000000
                  [status_jan])"
    by code_simp
  then obtain doc where
    doc: "exportData alice (Some 1704412800000) (Some 1707523200000) 1718000000000
            [status_jan] = Inr doc"
    by (metis sum.collapse(2))
  have src: "member alice ''trainDistance'' = Some (JNum 1200)
             \<and> member alice ''trainDuration'' = Some (JNum 90)"
    by (simp add: alice_def)
  from totals_copy_train [OF doc] doc src show ?thesis by auto
qed

text \<open>
  C7. In every entry the transform produces, a \<^verbatim>\<open>body\<close> absent from the status is
  written as the empty string, absent \<^verbatim>\<open>bodyMentions\<close> and \<^verbatim>\<open>tags\<close> as empty
  arrays, and \<^verbatim>\<open>stopovers\<close> absent from the train as an empty array; none of the
  four keys is ever missing from the entry.
\<close>

theorem absent_optionals_default:
  "transform_status s = Inr entry \<Longrightarrow>
     (member s ''body'' = None \<longrightarrow> at_path entry [''status'', ''body''] = Some (JStr []))
   \<and> (member s ''bodyMentions'' = None
        \<longrightarrow> at_path entry [''status'', ''bodyMentions''] = Some (JArr []))
   \<and> (member s ''tags'' = None \<longrightarrow> at_path entry [''status'', ''tags''] = Some (JArr []))
   \<and> (at_path s [''train'', ''stopovers''] = None
        \<longrightarrow> at_path entry [''trip'', ''stopovers''] = Some (JArr []))
   \<and> at_path entry [''status'', ''body''] \<noteq> None
   \<and> at_path entry [''status'', ''bodyMentions''] \<noteq> None
   \<and> at_path entry [''status'', ''tags''] \<noteq> None
   \<and> at_path entry [''trip'', ''stopovers''] \<noteq> None"
  by (auto simp: transform_status_def deref_def nullish_def object_def status_part_body
        status_part_bodyMentions status_part_tags trip_part_stopovers or_default_undefined
      split: sum.splits if_splits option.splits)

theorem absent_optionals_default_witness:
  "(\<exists>entry. transform_status status_jan = Inr entry
     \<and> member status_jan ''body'' = None
     \<and> member status_jan ''bodyMentions'' = None
     \<and> member status_jan ''tags'' = None
     \<and> at_path status_jan [''train'', ''stopovers''] = None
     \<and> at_path entry [''status'', ''body''] = Some (JStr [])
     \<and> at_path entry [''status'', ''bodyMentions''] = Some (JArr [])
     \<and> at_path entry [''status'', ''tags''] = Some (JArr [])
     \<and> at_path entry [''trip'', ''stopovers''] = Some (JArr []))"
proof -
  have "\<not> isl (transform_status status_jan)"
    by code_simp
  then obtain entry where entry: "transform_status status_jan = Inr entry"
    by (metis sum.collapse(2))
  have absent: "member status_jan ''body'' = None \<and> member status_jan ''bodyMentions'' = None
      \<and> member status_jan ''tags'' = None \<and> at_path status_jan [''train'', ''stopovers''] = None"
    by (simp add: status_jan_def)
  from absent_optionals_default [OF entry] entry absent show ?thesis by auto
qed

section \<open>Properties of the run\<close>

text \<open>
  C8. A run whose pagination accumulates no status writes no file and raises no error:
  it ends normally, having issued only its requests.
\<close>

theorem zero_statuses_write_nothing:
  "identify w = Some (Inr d) \<Longrightarrow>
   paginate w (member d ''username'') 1 [] [AuthUser] = Some ([], reqs) \<Longrightarrow>
   run rt w = Some \<lparr>requests = reqs, written = None, caught = None\<rparr>"
  by (simp add: run_def after_loop_def finish_def)

theorem zero_statuses_write_nothing_witness:
  "identify first_page_fails = Some (Inr alice)
   \<and> paginate first_page_fails (member alice ''username'') 1 [] [AuthUser]
       = Some ([], [AuthUser, UserStatuses (Some (JStr ''alice'')) 1])
   \<and> run two_dates first_page_fails
       = Some \<lparr>requests = [AuthUser, UserStatuses (Some (JStr ''alice'')) 1],
               written = None, caught = None\<rparr>"
proof -
  have id: "identify first_page_fails = Some (Inr alice)"
    by code_simp
  have pg: "paginate first_page_fails (member alice ''username'') 1 [] [AuthUser]
              = Some ([], [AuthUser, UserStatuses (Some (JStr ''alice'')) 1])"
    by code_simp
  from zero_statuses_write_nothing [OF id pg, of two_dates] id pg show ?thesis by simp
qed

section \<open>Properties of the pagination loop\<close>

text \<open>
  C2. When every response up to the first empty page \<open>N\<close> is valid, the loop returns
  the concatenation of pages 1 to \<open>N\<close> in ascending order, each page in its own order,
  and the length of the result is the sum of the item counts of these pages.
\<close>

theorem accumulated_is_concatenation:
  assumes "1 \<le> N"
    and "\<forall>i. 1 \<le> i \<and> i \<le> N \<longrightarrow> page_items w i \<noteq> None"
    and "page_items w N = Some []"
    and "\<forall>i. 1 \<le> i \<and> i < N \<longrightarrow> page_items w i \<noteq> Some []"
  shows "\<exists>allStatuses reqs.
           paginate w u 1 [] [AuthUser] = Some (allStatuses, reqs)
         \<and> allStatuses = concat (map (items_of w) [1..<Suc N])
         \<and> length allStatuses = sum_list (map (\<lambda>i. length (items_of w i)) [1..<Suc N])"
proof -
  have full: "\<forall>i. 1 \<le> i \<and> i < N \<longrightarrow> full_page w i"
    using assms(2,4) by (simp add: full_page_iff)
  have "paginate w u 1 [] [AuthUser] =
          Some ([] @ concat (map (items_of w) [1..<Suc N]),
                [AuthUser] @ map (UserStatuses u) [1..<Suc N])"
    using assms(1) full empty_page_not_full [OF assms(3)] empty_page_answered [OF assms(3)]
    by (rule paginate_stops)
  then show ?thesis
    by (simp add: length_concat comp_def del: upt_Suc)
qed

theorem accumulated_is_concatenation_witness:
  "(1::nat) \<le> 2
   \<and> page_items two_then_empty 1 = Some [status_jan, status_feb]
   \<and> page_items two_then_empty 2 = Some []
   \<and> (\<exists>reqs. paginate two_then_empty (Some (JStr ''alice'')) 1 [] [AuthUser]
                = Some ([status_jan, status_feb], reqs))
   \<and> length [status_jan, status_feb]
       = sum_list (map (\<lambda>i. length (items_of two_then_empty i)) [1..<Suc 2])"
proof -
  have p1: "page_items two_then_empty 1 = Some [status_jan, status_feb]"
    by code_simp
  have p2: "page_items two_then_empty 2 = Some []"
    by code_simp
  have cases: "i = 1 \<or> i = 2" if "1 \<le> i \<and> i \<le> 2" for i :: nat
    using that by auto
  have valid: "\<forall>i. 1 \<le> i \<and> i \<le> 2 \<longrightarrow> page_items two_then_empty i \<noteq> None"
    using cases p1 p2 by fastforce
  have first: "\<forall>i. 1 \<le> i \<and> i < 2 \<longrightarrow> page_items two_then_empty i \<noteq> Some []"
  proof (intro allI impI)
    fix i :: nat
    assume "1 \<le> i \<and> i < 2"
    then have "i = 1" by auto
    with p1 show "page_items two_then_empty i \<noteq> Some []" by simp
  qed
  have one: "(1::nat) \<le> 2" by simp
  have items: "concat (map (items_of two_then_empty) [1..<Suc 2]) = [status_jan, status_feb]"
    by code_simp
  from accumulated_is_concatenation [OF one valid p2 first, of "Some (JStr ''alice'')"]
  obtain allStatuses reqs where
    loop: "paginate two_then_empty (Some (JStr ''alice'')) 1 [] [AuthUser]
             = Some (allStatuses, reqs)"
    and cat: "allStatuses = concat (map (items_of two_then_empty) [1..<Suc 2])"
    and len: "length allStatuses
                = sum_list (map (\<lambda>i. length (items_of two_then_empty i)) [1..<Suc 2])"
    by blast
  have "\<exists>reqs. paginate two_then_empty (Some (JStr ''alice'')) 1 [] [AuthUser]
                 = Some ([status_jan, status_feb], reqs)"
    using loop cat items by simp
  moreover have "length [status_jan, status_feb]
      = sum_list (map (\<lambda>i. length (items_of two_then_empty i)) [1..<Suc 2])"
    using len cat items by simp
  ultimately show ?thesis
    using one p1 p2 by (intro conjI)
qed

text \<open>
  C3. In a sequence of responses, every page before \<open>N\<close> being answered, in which page
  \<open>N\<close> has an empty item array, the loop ends, and it requests no page beyond \<open>N\<close>;
  when it reaches page \<open>N\<close>, the pages before it all holding items, the request for
  page \<open>N\<close> is its last.
\<close>

theorem stops_at_empty_page:
  assumes "1 \<le> N" and "page_items w N = Some []"
    and "\<forall>i. 1 \<le> i \<and> i < N \<longrightarrow> answered w i"
  shows "\<exists>allStatuses reqs.
           paginate w u 1 [] [AuthUser] = Some (allStatuses, reqs)
         \<and> (\<forall>v p. UserStatuses v p \<in> set reqs \<longrightarrow> p \<le> N)
         \<and> ((\<forall>i. 1 \<le> i \<and> i < N \<longrightarrow> full_page w i)
              \<longrightarrow> reqs = AuthUser # map (UserStatuses u) [1..<Suc N])"
proof -
  from first_stop [OF assms(1) empty_page_not_full [OF assms(2)]]
  obtain m where m: "1 \<le> m" "m \<le> N" "\<not> full_page w m"
    "\<forall>i. 1 \<le> i \<and> i < m \<longrightarrow> full_page w i"
    by blast
  have "answered w m"
  proof (cases "m = N")
    case True
    with assms(2) show ?thesis by (simp add: empty_page_answered)
  next
    case False
    with m(1,2) assms(3) show ?thesis by simp
  qed
  with m(1,4,3) have run: "paginate w u 1 [] [AuthUser] =
          Some ([] @ concat (map (items_of w) [1..<Suc m]),
                [AuthUser] @ map (UserStatuses u) [1..<Suc m])"
    by (rule paginate_stops)
  have bound: "\<forall>v p. UserStatuses v p \<in> set ([AuthUser] @ map (UserStatuses u) [1..<Suc m])
                 \<longrightarrow> p \<le> N"
    using m(2) by auto
  have last: "m = N" if "\<forall>i. 1 \<le> i \<and> i < N \<longrightarrow> full_page w i"
  proof (rule ccontr)
    assume "m \<noteq> N"
    with m(2) have "m < N" by simp
    with that m(1) have "full_page w m" by blast
    with m(3) show False by contradiction
  qed
  show ?thesis
  proof (intro exI conjI)
    show "paginate w u 1 [] [AuthUser] =
          Some ([] @ concat (map (items_of w) [1..<Suc m]),
                [AuthUser] @ map (UserStatuses u) [1..<Suc m])"
      by (rule run)
    show "\<forall>v p. UserStatuses v p \<in> set ([AuthUser] @ map (UserStatuses u) [1..<Suc m])
            \<longrightarrow> p \<le> N"
      by (rule bound)
    show "(\<forall>i. 1 \<le> i \<and> i < N \<longrightarrow> full_page w i) \<longrightarrow>
          [AuthUser] @ map (UserStatuses u) [1..<Suc m]
            = AuthUser # map (UserStatuses u) [1..<Suc N]"
      using last by (simp del: upt_Suc)
  qed
qed

theorem stops_at_empty_page_witness:
  "(1::nat) \<le> 2
   \<and> page_items two_then_empty 2 = Some []
   \<and> answered two_then_empty 1
   \<and> full_page two_then_empty 1
   \<and> (\<exists>allStatuses.
        paginate two_then_empty (Some (JStr ''alice'')) 1 [] [AuthUser]
          = Some (allStatuses,
                  [AuthUser, UserStatuses (Some (JStr ''alice'')) 1,
                   UserStatuses (Some (JStr ''alice'')) 2]))"
proof -
  have p2: "page_items two_then_empty 2 = Some []"
    by code_simp
  have f1: "full_page two_then_empty 1"
    by code_simp
  have full: "\<forall>i. 1 \<le> i \<and> i < 2 \<longrightarrow> full_page two_then_empty i"
  proof (intro allI impI)
    fix i :: nat
    assume "1 \<le> i \<and> i < 2"
    then have "i = 1" by auto
    with f1 show "full_page two_then_empty i" by simp
  qed
  have a1: "answered two_then_empty 1"
    by code_simp
  have ans: "\<forall>i. 1 \<le> i \<and> i < 2 \<longrightarrow> answered two_then_empty i"
  proof (intro allI impI)
    fix i :: nat
    assume "1 \<le> i \<and> i < 2"
    then have "i = 1" by auto
    with a1 show "answered two_then_empty i" by simp
  qed
  have one: "(1::nat) \<le> 2" by simp
  have pages: "[1..<Suc 2] = [1, 2]"
    by (simp add: upt_conv_Cons)
  from stops_at_empty_page [OF one p2 ans, of "Some (JStr ''alice'')"]
  obtain allStatuses reqs where
    loop: "paginate two_then_empty (Some (JStr ''alice'')) 1 [] [AuthUser]
             = Some (allStatuses, reqs)"
    and last: "(\<forall>i. 1 \<le> i \<and> i < 2 \<longrightarrow> full_page two_then_empty i)
       \<longrightarrow> reqs = AuthUser # map (UserStatuses (Some (JStr ''alice''))) [1..<Suc 2]"
    by blast
  from last full have "reqs = AuthUser # map (UserStatuses (Some (JStr ''alice''))) [1..<Suc 2]"
    by (rule mp)
  then have "reqs = [AuthUser, UserStatuses (Some (JStr ''alice'')) 1,
                     UserStatuses (Some (JStr ''alice'')) 2]"
    unfolding pages by simp
  with loop have "\<exists>allStatuses.
        paginate two_then_empty (Some (JStr ''alice'')) 1 [] [AuthUser]
          = Some (allStatuses,
                  [AuthUser, UserStatuses (Some (JStr ''alice'')) 1,
                   UserStatuses (Some (JStr ''alice'')) 2])"
    by simp
  then show ?thesis
    using one p2 a1 f1 by (intro conjI)
qed

section \<open>Properties of the statistics\<close>




section \<open>The document across runs\<close>

text \<open>
  C1, as stated, fails: the header of the document holds \<^verbatim>\<open>exportedAt\<close>, the
  clock reading at the time of the transform, so that two runs on the same profile and
  the same statuses, one millisecond apart, produce different documents.
\<close>

theorem same_inputs_different_documents:
  "exportData alice (Some 1704412800000) (Some 1707523200000) 1718000000000
     [status_jan, status_feb]
   \<noteq> exportData alice (Some 1704412800000) (Some 1707523200000) 1718000000001
       [status_jan, status_feb]"
  by code_simp

text \<open>
  C1, amended. For a fixed profile and a fixed list of statuses, the outcomes of the
  transform at any two clock readings are the same error, or two documents that are
  identical once \<^verbatim>\<open>meta.exportedAt\<close> is taken out of both.
\<close>

theorem only_exportedAt_varies:
  "map_sum id without_exportedAt (exportData d earliest latest now allStatuses)
   = map_sum id without_exportedAt (exportData d earliest latest now' allStatuses)"
  by (simp add: exportData_def toISOString_def without_exportedAt_def remove_key_def
        object_def split: sum.splits option.splits)

theorem only_exportedAt_varies_witness:
  "map_sum id without_exportedAt
     (exportData alice (Some 1704412800000) (Some 1707523200000) 1718000000000
        [status_jan, status_feb])
   = map_sum id without_exportedAt
       (exportData alice (Some 1704412800000) (Some 1707523200000) 1718000000001
          [status_jan, status_feb])
   \<and> \<not> isl (exportData alice (Some 1704412800000) (Some 1707523200000) 1718000000000
              [status_jan, status_feb])"
proof -
  have "\<not> isl (exportData alice (Some 1704412800000) (Some 1707523200000) 1718000000000
              [status_jan, status_feb])"
    by code_simp
  with only_exportedAt_varies [of alice "Some 1704412800000" "Some 1707523200000"
      1718000000000 "[status_jan, status_feb]" 1718000000001]
  show ?thesis by (rule conjI)
qed

section \<open>The unguarded reads of the transform\<close>

text \<open>
  C10, as stated, fails: a train with origin and destination on every status is not
  enough for the run to write. A status with a complete train and no \<^verbatim>\<open>createdAt\<close>
  gives an invalid earliest date, \<^verbatim>\<open>toISOString\<close> throws a RangeError where the date
  range is printed, before the transform, and no file is written.
\<close>

theorem complete_train_without_date:
  "train_complete status_undated
   \<and> identify with_undated = Some (Inr alice)
   \<and> paginate with_undated (Some (JStr ''alice'')) 1 [] [AuthUser]
       = Some ([status_undated],
               [AuthUser, UserStatuses (Some (JStr ''alice'')) 1,
                UserStatuses (Some (JStr ''alice'')) 2])
   \<and> write_error with_undated = None
   \<and> run two_dates with_undated
       = Some \<lparr>requests = [AuthUser, UserStatuses (Some (JStr ''alice'')) 1,
                            UserStatuses (Some (JStr ''alice'')) 2],
               written = None, caught = Some RangeError\<rparr>"
  by code_simp

text \<open>
  C10, amended. The transform reads \<^verbatim>\<open>train.trip\<close> and the properties of
  \<^verbatim>\<open>train.origin\<close> and \<^verbatim>\<open>train.destination\<close> without a guard. In a run that
  accumulated at least one status: when every status has a train with origin and
  destination present and a \<^verbatim>\<open>createdAt\<close> that the \<^verbatim>\<open>Date\<close> constructor accepts,
  the statuses are no more than the engine's limit on the arguments of one call, and
  the file system accepts the write, the transform and the write complete without
  error; when some status lacks its train, or the origin or destination of it, the
  transform throws a TypeError at any valid date range, the run ends with an error
  caught at the top-level boundary, and no file is written.
\<close>

theorem unguarded_train_reads:
  assumes "identify w = Some (Inr d)"
    and "paginate w (member d ''username'') 1 [] [AuthUser] = Some (allStatuses, reqs)"
    and "allStatuses \<noteq> []"
  shows "((\<forall>s\<in>set allStatuses. train_complete s \<and> dated rt s)
            \<and> int (length allStatuses) \<le> argument_limit rt \<and> write_error w = None
            \<longrightarrow> (\<exists>doc. run rt w
                   = Some \<lparr>requests = reqs,
                           written = Some \<lparr>file_user = member d ''username'', content = doc\<rparr>,
                           caught = None\<rparr>))
       \<and> ((\<exists>s\<in>set allStatuses. \<not> train_complete s)
            \<longrightarrow> (\<forall>e l now. exportData d (Some e) (Some l) now allStatuses = Inl TypeError)
              \<and> (\<exists>err. run rt w
                   = Some \<lparr>requests = reqs, written = None, caught = Some err\<rparr>))"
proof (intro conjI impI)
  assume ok: "(\<forall>s\<in>set allStatuses. train_complete s \<and> dated rt s)
            \<and> int (length allStatuses) \<le> argument_limit rt \<and> write_error w = None"
  then have "\<forall>s\<in>set allStatuses. dated rt s" and "\<forall>s\<in>set allStatuses. train_complete s"
    and "write_error w = None" and "int (length allStatuses) \<le> argument_limit rt"
    by auto
  with assms(3) obtain doc where
    "after_loop rt w d allStatuses
       = Inr (Some \<lparr>file_user = member d ''username'', content = doc\<rparr>)"
    using after_loop_writes by blast
  then have "run rt w
       = Some \<lparr>requests = reqs,
               written = Some \<lparr>file_user = member d ''username'', content = doc\<rparr>,
               caught = None\<rparr>"
    using assms(1,2) by (simp add: run_def finish_def)
  then show "\<exists>doc. run rt w
       = Some \<lparr>requests = reqs,
               written = Some \<lparr>file_user = member d ''username'', content = doc\<rparr>,
               caught = None\<rparr>" ..
next
  assume "\<exists>s\<in>set allStatuses. \<not> train_complete s"
  then obtain s where s: "s \<in> set allStatuses" "\<not> train_complete s"
    by blast
  then show "\<forall>e l now. exportData d (Some e) (Some l) now allStatuses = Inl TypeError"
    by (simp add: exportData_incomplete)
  from s have "isl (after_loop rt w d allStatuses)"
    by (rule after_loop_throws)
  then obtain err where "after_loop rt w d allStatuses = Inl err"
    by (metis sum.collapse(1))
  then have "run rt w = Some \<lparr>requests = reqs, written = None, caught = Some err\<rparr>"
    using assms(1,2) by (simp add: run_def finish_def)
  then show "\<exists>err. run rt w = Some \<lparr>requests = reqs, written = None, caught = Some err\<rparr>" ..
qed

theorem unguarded_train_reads_witness:
  "train_complete status_jan \<and> train_complete status_feb
   \<and> dated two_dates status_jan \<and> dated two_dates status_feb
   \<and> int (length [status_jan, status_feb]) \<le> argument_limit two_dates
   \<and> write_error two_then_empty = None
   \<and> (\<exists>doc. run two_dates two_then_empty
         = Some \<lparr>requests = [AuthUser, UserStatuses (Some (JStr ''alice'')) 1,
                              UserStatuses (Some (JStr ''alice'')) 2],
                 written = Some \<lparr>file_user = Some (JStr ''alice''), content = doc\<rparr>,
                 caught = None\<rparr>)
   \<and> \<not> train_complete status_no_train
   \<and> exportData alice (Some 1704412800000) (Some 1707523200000) 1718000000000
       [status_jan, status_no_train] = Inl TypeError
   \<and> (\<exists>err. run two_dates with_no_train
         = Some \<lparr>requests = [AuthUser, UserStatuses (Some (JStr ''alice'')) 1,
                              UserStatuses (Some (JStr ''alice'')) 2],
                 written = None, caught = Some err\<rparr>)"
proof -
  have user: "member alice ''username'' = Some (JStr ''alice'')"
    by (simp add: alice_def)
  have id1: "identify two_then_empty = Some (Inr alice)"
    by code_simp
  have pg1: "paginate two_then_empty (member alice ''username'') 1 [] [AuthUser]
       = Some ([status_jan, status_feb],
               [AuthUser, UserStatuses (Some (JStr ''alice'')) 1,
                UserStatuses (Some (JStr ''alice'')) 2])"
    by code_simp
  have id2: "identify with_no_train = Some (Inr alice)"
    by code_simp
  have pg2: "paginate with_no_train (member alice ''username'') 1 [] [AuthUser]
       = Some ([status_jan, status_no_train],
               [AuthUser, UserStatuses (Some (JStr ''alice'')) 1,
                UserStatuses (Some (JStr ''alice'')) 2])"
    by code_simp
  have ne1: "[status_jan, status_feb] \<noteq> []" and ne2: "[status_jan, status_no_train] \<noteq> []"
    by simp_all
  have c1: "train_complete status_jan"
    by code_simp
  have c2: "train_complete status_feb"
    by code_simp
  have d1: "dated two_dates status_jan"
    by code_simp
  have d2: "dated two_dates status_feb"
    by code_simp
  have fs: "write_error two_then_empty = None"
    by code_simp
  have missing: "\<not> train_complete status_no_train"
    by code_simp
  have within: "int (length [status_jan, status_feb]) \<le> argument_limit two_dates"
    by (simp add: two_dates_def)
  have ok: "(\<forall>s\<in>set [status_jan, status_feb]. train_complete s \<and> dated two_dates s)
            \<and> int (length [status_jan, status_feb]) \<le> argument_limit two_dates
            \<and> write_error two_then_empty = None"
    using c1 c2 d1 d2 fs within by simp
  have bad: "\<exists>s\<in>set [status_jan, status_no_train]. \<not> train_complete s"
    using missing by simp
  from unguarded_train_reads [OF id1 pg1 ne1, of two_dates]
  have "(\<forall>s\<in>set [status_jan, status_feb]. train_complete s \<and> dated two_dates s)
            \<and> int (length [status_jan, status_feb]) \<le> argument_limit two_dates
            \<and> write_error two_then_empty = None
        \<longrightarrow> (\<exists>doc. run two_dates two_then_empty
              = Some \<lparr>requests = [AuthUser, UserStatuses (Some (JStr ''alice'')) 1,
                                   UserStatuses (Some (JStr ''alice'')) 2],
                      written = Some \<lparr>file_user = member alice ''username'', content = doc\<rparr>,
                      caught = None\<rparr>)"
    by (rule conjunct1)
  from this ok have wrote: "\<exists>doc. run two_dates two_then_empty
              = Some \<lparr>requests = [AuthUser, UserStatuses (Some (JStr ''alice'')) 1,
                                   UserStatuses (Some (JStr ''alice'')) 2],
                      written = Some \<lparr>file_user = member alice ''username'', content = doc\<rparr>,
                      caught = None\<rparr>"
    by (rule mp)
  from unguarded_train_reads [OF id2 pg2 ne2, of two_dates]
  have "(\<exists>s\<in>set [status_jan, status_no_train]. \<not> train_complete s)
        \<longrightarrow> (\<forall>e l now. exportData alice (Some e) (Some l) now [status_jan, status_no_train]
                         = Inl TypeError)
          \<and> (\<exists>err. run two_dates with_no_train
                 = Some \<lparr>requests = [AuthUser, UserStatuses (Some (JStr ''alice'')) 1,
                                      UserStatuses (Some (JStr ''alice'')) 2],
                         written = None, caught = Some err\<rparr>)"
    by (rule conjunct2)
  from this bad have failed:
    "(\<forall>e l now. exportData alice (Some e) (Some l) now [status_jan, status_no_train]
                         = Inl TypeError)
          \<and> (\<exists>err. run two_dates with_no_train
                 = Some \<lparr>requests = [AuthUser, UserStatuses (Some (JStr ''alice'')) 1,
                                      UserStatuses (Some (JStr ''alice'')) 2],
                         written = None, caught = Some err\<rparr>)"
    by (rule mp)
  then have throws: "exportData alice (Some 1704412800000) (Some 1707523200000) 1718000000000
       [status_jan, status_no_train] = Inl TypeError"
    by blast
  from failed have caught: "\<exists>err. run two_dates with_no_train
                 = Some \<lparr>requests = [AuthUser, UserStatuses (Some (JStr ''alice'')) 1,
                                      UserStatuses (Some (JStr ''alice'')) 2],
                         written = None, caught = Some err\<rparr>"
    by (rule conjunct2)
  show ?thesis
    using c1 c2 d1 d2 within fs wrote missing throws caught unfolding user by (intro conjI)
qed

section \<open>A failing page\<close>

lemma map_throwing_length: "map_throwing f xs = Inr ys \<Longrightarrow> length ys = length xs"
proof (induction xs arbitrary: ys)
  case Nil
  then show ?case by simp
next
  case (Cons x xs)
  then show ?case
    by (auto split: sum.splits)
qed

text \<open>
  A page whose response is cut short after its headers, on status 200, is not a failing
  page for the script: its fetch is never settled, the loop waits, and the run completes
  nothing, whatever the pages before it held.
\<close>

lemma unsettled_page_no_result:
  assumes "identify w = Some (Inr d)" and "1 \<le> N"
    and "\<forall>i. 1 \<le> i \<and> i < N \<longrightarrow> full_page w i"
    and "\<not> answered w N"
  shows "run rt w = None"
proof -
  have "paginate w (member d ''username'') 1 [] [AuthUser] = None"
    using assms(2,3,4) by (rule paginate_waits)
  with assms(1) show ?thesis
    by (simp add: run_def)
qed

lemma cut_response_no_export: "run two_dates second_page_cut = None"
  by code_simp

text \<open>
  C4, as stated, fails at the first page: when the fetch of page 1 is rejected, nothing
  has been accumulated, the guard of line 135 skips statistics, transform and write,
  and the run ends without a file.
\<close>

theorem first_page_failure_skips_write:
  "identify first_page_fails = Some (Inr alice)
   \<and> fetchJSON (page_response first_page_fails 1) = Some (Inl (HttpError 500))
   \<and> page_broken first_page_fails 1
   \<and> after_loop two_dates first_page_fails alice [] = Inr None
   \<and> run two_dates first_page_fails
       = Some \<lparr>requests = [AuthUser, UserStatuses (Some (JStr ''alice'')) 1],
               written = None, caught = None\<rparr>"
  by code_simp

text \<open>
  C4, amended. When the loop reaches page \<open>N\<close> and that page fails (its fetch is
  rejected with an error, or its response has no \<^verbatim>\<open>data\<close> or one that is not an
  array), the loop ends there: pages 1 to \<open>N\<close> have been requested once each and page
  \<open>N + 1\<close> is not requested, and the rest of the run works on exactly the statuses of
  pages 1 to \<open>N - 1\<close>. When \<open>N\<close> is not the first page these are at least one status
  and the run proceeds to statistics, transform and write: it ends with a file written
  or with an error caught, and when every one of these statuses has a valid creation
  date and a complete train, they are no more than the engine's argument limit and the
  write is accepted, the file written holds their date range and one entry for each of
  them. When \<open>N\<close> is the first page no status is accumulated and the run ends without a
  file and without an error.
\<close>

theorem failing_page_ends_loop:
  assumes "identify w = Some (Inr d)" and "1 \<le> N"
    and "\<forall>i. 1 \<le> i \<and> i < N \<longrightarrow> full_page w i"
    and "page_broken w N"
  shows "\<exists>allStatuses reqs.
           allStatuses = concat (map (items_of w) [1..<N])
         \<and> paginate w (member d ''username'') 1 [] [AuthUser] = Some (allStatuses, reqs)
         \<and> reqs = AuthUser # map (UserStatuses (member d ''username'')) [1..<Suc N]
         \<and> distinct reqs
         \<and> UserStatuses (member d ''username'') (Suc N) \<notin> set reqs
         \<and> run rt w = Some (finish reqs (after_loop rt w d allStatuses))
         \<and> (N = 1 \<longrightarrow>
               allStatuses = []
             \<and> run rt w = Some \<lparr>requests = reqs, written = None, caught = None\<rparr>)
         \<and> (1 < N \<longrightarrow>
               allStatuses \<noteq> []
             \<and> (\<exists>r. run rt w = Some r \<and> (written r = None \<longrightarrow> caught r \<noteq> None)))
         \<and> (1 < N \<and> (\<forall>s\<in>set allStatuses. dated rt s \<and> train_complete s)
              \<and> int (length allStatuses) \<le> argument_limit rt \<and> write_error w = None \<longrightarrow>
               (\<exists>ts entries.
                  map (created rt) allStatuses = map (\<lambda>t. Inr (Some t)) ts
                \<and> map_throwing transform_status allStatuses = Inr entries
                \<and> length entries = length allStatuses
                \<and> run rt w
                    = Some \<lparr>requests = reqs,
                            written = Some \<lparr>file_user = member d ''username'',
                                             content = document d (Min (set ts)) (Max (set ts))
                                                         (clock w) entries\<rparr>,
                            caught = None\<rparr>))"
proof -
  let ?u = "member d ''username''"
  let ?all = "concat (map (items_of w) [1..<N])"
  let ?reqs = "AuthUser # map (UserStatuses ?u) [1..<Suc N]"
  have stop: "\<not> full_page w N"
    using assms(4) by (rule broken_page_not_full)
  have "paginate w ?u 1 [] [AuthUser] =
          Some ([] @ concat (map (items_of w) [1..<Suc N]),
                [AuthUser] @ map (UserStatuses ?u) [1..<Suc N])"
    using assms(2,3) stop broken_page_answered [OF assms(4)] by (rule paginate_stops)
  then have loop: "paginate w ?u 1 [] [AuthUser] = Some (?all, ?reqs)"
    using assms(2) by (simp add: items_of_not_full [OF stop])
  have dist: "distinct ?reqs"
    by (auto simp: distinct_map inj_on_def simp del: upt_Suc)
  have next_page: "UserStatuses ?u (Suc N) \<notin> set ?reqs"
    by auto
  have rest: "run rt w = Some (finish ?reqs (after_loop rt w d ?all))"
    using assms(1) loop by (simp add: run_def)
  have first: "?all = [] \<and> run rt w = Some \<lparr>requests = ?reqs, written = None, caught = None\<rparr>"
    if "N = 1"
    using that rest by (simp add: after_loop_def finish_def)
  have some: "?all \<noteq> []" if "1 < N"
  proof -
    from that assms(3) have "full_page w 1"
      by simp
    then have "items_of w 1 \<noteq> []"
      by (auto simp: full_page_def items_of_def split: option.splits)
    moreover have "[1..<N] = 1 # [Suc 1..<N]"
      using that by (simp add: upt_conv_Cons)
    ultimately show ?thesis
      by simp
  qed
  have entered: "\<exists>r. run rt w = Some r \<and> (written r = None \<longrightarrow> caught r \<noteq> None)" if "1 < N"
  proof (cases "after_loop rt w d ?all")
    case (Inl err)
    with rest show ?thesis
      by (simp add: finish_def)
  next
    case (Inr f)
    with after_loop_entered [OF some [OF that], of rt w d] have "f \<noteq> None"
      by auto
    with Inr rest show ?thesis
      by (simp add: finish_def)
  qed
  have wrote: "\<exists>ts entries.
                  map (created rt) ?all = map (\<lambda>t. Inr (Some t)) ts
                \<and> map_throwing transform_status ?all = Inr entries
                \<and> length entries = length ?all
                \<and> run rt w
                    = Some \<lparr>requests = ?reqs,
                            written = Some \<lparr>file_user = ?u,
                                             content = document d (Min (set ts)) (Max (set ts))
                                                         (clock w) entries\<rparr>,
                            caught = None\<rparr>"
    if ok: "1 < N \<and> (\<forall>s\<in>set ?all. dated rt s \<and> train_complete s)
              \<and> int (length ?all) \<le> argument_limit rt \<and> write_error w = None"
  proof -
    from ok have "1 < N" and "\<forall>s\<in>set ?all. dated rt s" and "\<forall>s\<in>set ?all. train_complete s"
      and "write_error w = None" and "int (length ?all) \<le> argument_limit rt"
      by auto
    with some obtain ts entries where
      ts: "map (created rt) ?all = map (\<lambda>t. Inr (Some t)) ts"
      and entries: "map_throwing transform_status ?all = Inr entries"
      and wr: "after_loop rt w d ?all
             = Inr (Some \<lparr>file_user = ?u,
                           content = document d (Min (set ts)) (Max (set ts)) (clock w)
                                       entries\<rparr>)"
      using after_loop_writes [of ?all rt w d] by blast
    have "run rt w
           = Some \<lparr>requests = ?reqs,
                   written = Some \<lparr>file_user = ?u,
                                    content = document d (Min (set ts)) (Max (set ts))
                                                (clock w) entries\<rparr>,
                   caught = None\<rparr>"
      using rest wr by (simp add: finish_def)
    with ts entries map_throwing_length [OF entries] show ?thesis
      by blast
  qed
  have first': "N = 1 \<longrightarrow>
               ?all = []
             \<and> run rt w = Some \<lparr>requests = ?reqs, written = None, caught = None\<rparr>"
    using first by blast
  have entered': "1 < N \<longrightarrow>
               ?all \<noteq> []
             \<and> (\<exists>r. run rt w = Some r \<and> (written r = None \<longrightarrow> caught r \<noteq> None))"
    using some entered by blast
  have wrote': "1 < N \<and> (\<forall>s\<in>set ?all. dated rt s \<and> train_complete s)
              \<and> int (length ?all) \<le> argument_limit rt \<and> write_error w = None \<longrightarrow>
               (\<exists>ts entries.
                  map (created rt) ?all = map (\<lambda>t. Inr (Some t)) ts
                \<and> map_throwing transform_status ?all = Inr entries
                \<and> length entries = length ?all
                \<and> run rt w
                    = Some \<lparr>requests = ?reqs,
                            written = Some \<lparr>file_user = ?u,
                                             content = document d (Min (set ts)) (Max (set ts))
                                                         (clock w) entries\<rparr>,
                            caught = None\<rparr>)"
    using wrote by (rule impI)
  show ?thesis
    using loop dist next_page rest first' entered' wrote'
    by (intro exI [of _ ?all] exI [of _ ?reqs] conjI refl)
qed

theorem failing_page_ends_loop_witness:
  "identify second_page_fails = Some (Inr alice)
   \<and> (1::nat) < 2
   \<and> full_page second_page_fails 1
   \<and> page_broken second_page_fails 2
   \<and> dated two_dates status_jan \<and> train_complete status_jan
   \<and> dated two_dates status_feb \<and> train_complete status_feb
   \<and> int (length [status_jan, status_feb]) \<le> argument_limit two_dates
   \<and> write_error second_page_fails = None
   \<and> paginate second_page_fails (Some (JStr ''alice'')) 1 [] [AuthUser]
       = Some ([status_jan, status_feb],
               [AuthUser, UserStatuses (Some (JStr ''alice'')) 1,
                UserStatuses (Some (JStr ''alice'')) 2])
   \<and> (\<exists>entries.
         map_throwing transform_status [status_jan, status_feb] = Inr entries
       \<and> length entries = 2
       \<and> run two_dates second_page_fails
           = Some \<lparr>requests = [AuthUser, UserStatuses (Some (JStr ''alice'')) 1,
                                UserStatuses (Some (JStr ''alice'')) 2],
                   written = Some \<lparr>file_user = Some (JStr ''alice''),
                                    content = document alice 1704412800000 1707523200000
                                                1718000000000 entries\<rparr>,
                   caught = None\<rparr>)"
proof -
  have id: "identify second_page_fails = Some (Inr alice)"
    by code_simp
  have f1: "full_page second_page_fails 1"
    by code_simp
  have full: "\<forall>i. 1 \<le> i \<and> i < 2 \<longrightarrow> full_page second_page_fails i"
  proof (intro allI impI)
    fix i :: nat
    assume "1 \<le> i \<and> i < 2"
    then have "i = 1" by auto
    with f1 show "full_page second_page_fails i" by simp
  qed
  have broken: "page_broken second_page_fails 2"
    by code_simp
  have one: "(1::nat) \<le> 2" and two: "(1::nat) < 2"
    by simp_all
  have d1: "dated two_dates status_jan" by code_simp
  have c1: "train_complete status_jan" by code_simp
  have d2: "dated two_dates status_feb" by code_simp
  have c2: "train_complete status_feb" by code_simp
  have within: "int (length [status_jan, status_feb]) \<le> argument_limit two_dates"
    by (simp add: two_dates_def)
  have fs: "write_error second_page_fails = None"
    by code_simp
  have now: "clock second_page_fails = 1718000000000"
    by code_simp
  have user: "member alice ''username'' = Some (JStr ''alice'')"
    by (simp add: alice_def)
  have items: "concat (map (items_of second_page_fails) [1..<2]) = [status_jan, status_feb]"
    by code_simp
  have pages: "[1..<Suc 2] = [1, 2]"
    by (simp add: upt_conv_Cons)
  have dates: "map (created two_dates) [status_jan, status_feb]
                 = [Inr (Some 1704412800000), Inr (Some 1707523200000)]"
    by code_simp
  from failing_page_ends_loop [OF id one full broken, of two_dates]
  obtain allStatuses reqs where
    all: "allStatuses = concat (map (items_of second_page_fails) [1..<2])"
    and loop: "paginate second_page_fails (member alice ''username'') 1 [] [AuthUser]
             = Some (allStatuses, reqs)"
    and reqs: "reqs = AuthUser # map (UserStatuses (member alice ''username'')) [1..<Suc 2]"
    and wrote: "1 < (2::nat) \<and> (\<forall>s\<in>set allStatuses. dated two_dates s \<and> train_complete s)
              \<and> int (length allStatuses) \<le> argument_limit two_dates
              \<and> write_error second_page_fails = None \<longrightarrow>
               (\<exists>ts entries.
                  map (created two_dates) allStatuses = map (\<lambda>t. Inr (Some t)) ts
                \<and> map_throwing transform_status allStatuses = Inr entries
                \<and> length entries = length allStatuses
                \<and> run two_dates second_page_fails
                    = Some \<lparr>requests = reqs,
                            written = Some \<lparr>file_user = member alice ''username'',
                                             content = document alice (Min (set ts))
                                                         (Max (set ts))
                                                         (clock second_page_fails) entries\<rparr>,
                            caught = None\<rparr>)"
    by blast
  have all': "allStatuses = [status_jan, status_feb]"
    using all items by simp
  have reqs': "reqs = [AuthUser, UserStatuses (Some (JStr ''alice'')) 1,
                       UserStatuses (Some (JStr ''alice'')) 2]"
    using reqs unfolding user pages by simp
  have ok: "1 < (2::nat) \<and> (\<forall>s\<in>set allStatuses. dated two_dates s \<and> train_complete s)
              \<and> int (length allStatuses) \<le> argument_limit two_dates
              \<and> write_error second_page_fails = None"
    unfolding all' using d1 c1 d2 c2 within fs by simp
  from wrote ok have "\<exists>ts entries.
                  map (created two_dates) allStatuses = map (\<lambda>t. Inr (Some t)) ts
                \<and> map_throwing transform_status allStatuses = Inr entries
                \<and> length entries = length allStatuses
                \<and> run two_dates second_page_fails
                    = Some \<lparr>requests = reqs,
                            written = Some \<lparr>file_user = member alice ''username'',
                                             content = document alice (Min (set ts))
                                                         (Max (set ts))
                                                         (clock second_page_fails) entries\<rparr>,
                            caught = None\<rparr>"
    by (rule mp)
  then obtain ts entries where
    ts: "map (created two_dates) allStatuses = map (\<lambda>t. Inr (Some t)) ts"
    and entries: "map_throwing transform_status allStatuses = Inr entries"
    and len: "length entries = length allStatuses"
    and result: "run two_dates second_page_fails
                    = Some \<lparr>requests = reqs,
                            written = Some \<lparr>file_user = member alice ''username'',
                                             content = document alice (Min (set ts))
                                                         (Max (set ts))
                                                         (clock second_page_fails) entries\<rparr>,
                            caught = None\<rparr>"
    by blast
  have "map (\<lambda>t. Inr (Some t)) ts
          = [Inr (Some 1704412800000), Inr (Some 1707523200000) :: error + date]"
    using ts dates unfolding all' by simp
  then have "ts = [1704412800000, 1707523200000]"
    by (auto simp: map_eq_Cons_conv)
  then have range: "Min (set ts) = 1704412800000" "Max (set ts) = 1707523200000"
    by simp_all
  have "map_throwing transform_status [status_jan, status_feb] = Inr entries
       \<and> length entries = 2
       \<and> run two_dates second_page_fails
           = Some \<lparr>requests = [AuthUser, UserStatuses (Some (JStr ''alice'')) 1,
                                UserStatuses (Some (JStr ''alice'')) 2],
                   written = Some \<lparr>file_user = Some (JStr ''alice''),
                                    content = document alice 1704412800000 1707523200000
                                                1718000000000 entries\<rparr>,
                   caught = None\<rparr>"
    using entries len result unfolding all' reqs' user range now by simp
  then have last: "\<exists>entries.
         map_throwing transform_status [status_jan, status_feb] = Inr entries
       \<and> length entries = 2
       \<and> run two_dates second_page_fails
           = Some \<lparr>requests = [AuthUser, UserStatuses (Some (JStr ''alice'')) 1,
                                UserStatuses (Some (JStr ''alice'')) 2],
                   written = Some \<lparr>file_user = Some (JStr ''alice''),
                                    content = document alice 1704412800000 1707523200000
                                                1718000000000 entries\<rparr>,
                   caught = None\<rparr>" ..
  have "paginate second_page_fails (Some (JStr ''alice'')) 1 [] [AuthUser]
       = Some ([status_jan, status_feb],
               [AuthUser, UserStatuses (Some (JStr ''alice'')) 1,
                UserStatuses (Some (JStr ''alice'')) 2])"
    using loop unfolding user all' reqs' by simp
  then show ?thesis
    using id two f1 broken d1 c1 d2 c2 within fs last by (intro conjI)
qed

end
